theory Spec2Isabelle
  imports Complex_Main
begin

section \<open>Math primitives (array.cpp)\<close>

text \<open>
  The machine numbers \<open>float\<close>, \<open>double\<close> and \<open>fl\<close> of the sources are read as
  \<^typ>\<open>real\<close>: rounding, infinities and NaN are outside this development. Indices and
  counters (\<open>size_t\<close>) are \<^typ>\<open>nat\<close>; none of the index computations below gets near
  \<open>2^64\<close>. A fixed-size \<open>array<float, N>\<close> is a tuple.
\<close>

type_synonym vec3 = "real \<times> real \<times> real"
type_synonym qtn4 = "real \<times> real \<times> real \<times> real"

datatype mat3 = Mat3 real real real real real real real real real

definition mr :: "nat \<Rightarrow> nat \<Rightarrow> nat" where
  "mr x y = (y * (y + 1)) div 2 + x"

definition mp :: "nat \<Rightarrow> nat \<Rightarrow> nat" where
  "mp x y = (if x \<le> y then mr x y else mr y x)"

fun norm_sqr3 :: "vec3 \<Rightarrow> real" where
  "norm_sqr3 (a0, a1, a2) = a0 * a0 + a1 * a1 + a2 * a2"

fun norm_sqr4 :: "qtn4 \<Rightarrow> real" where
  "norm_sqr4 (a0, a1, a2, a3) = a0 * a0 + a1 * a1 + a2 * a2 + a3 * a3"

definition norm3 :: "vec3 \<Rightarrow> real" where
  "norm3 a = sqrt (norm_sqr3 a)"

definition norm4 :: "qtn4 \<Rightarrow> real" where
  "norm4 a = sqrt (norm_sqr4 a)"

definition normalized3 :: "vec3 \<Rightarrow> bool" where
  "normalized3 a = (\<bar>norm_sqr3 a - 1\<bar> < 1 / 100)"

definition normalized4 :: "qtn4 \<Rightarrow> bool" where
  "normalized4 a = (\<bar>norm_sqr4 a - 1\<bar> < 1 / 100)"

fun smul3 :: "real \<Rightarrow> vec3 \<Rightarrow> vec3" where
  "smul3 s (a0, a1, a2) = (s * a0, s * a1, s * a2)"

definition normalize3 :: "vec3 \<Rightarrow> vec3" where
  "normalize3 a = (let norm_inv = 1 / norm3 a in
     (case a of (a0, a1, a2) \<Rightarrow> (a0 * norm_inv, a1 * norm_inv, a2 * norm_inv)))"

definition normalize4 :: "qtn4 \<Rightarrow> qtn4" where
  "normalize4 a = (let norm_inv = 1 / norm4 a in
     (case a of (a0, a1, a2, a3) \<Rightarrow> (a0 * norm_inv, a1 * norm_inv, a2 * norm_inv, a3 * norm_inv)))"

fun vadd :: "vec3 \<Rightarrow> vec3 \<Rightarrow> vec3" where
  "vadd (a0, a1, a2) (b0, b1, b2) = (a0 + b0, a1 + b1, a2 + b2)"

fun vsub :: "vec3 \<Rightarrow> vec3 \<Rightarrow> vec3" where
  "vsub (a0, a1, a2) (b0, b1, b2) = (a0 - b0, a1 - b1, a2 - b2)"

text \<open>\<open>operator*\<close> on two 3-vectors is the cross product.\<close>

fun cross_product :: "vec3 \<Rightarrow> vec3 \<Rightarrow> vec3" where
  "cross_product (a0, a1, a2) (b0, b1, b2) =
     (a1 * b2 - a2 * b1, a2 * b0 - a0 * b2, a0 * b1 - a1 * b0)"

text \<open>The dot product, written \<open>torque[k] * axis[k]\<close> in ligand.cpp.\<close>

fun dot3 :: "vec3 \<Rightarrow> vec3 \<Rightarrow> real" where
  "dot3 (a0, a1, a2) (b0, b1, b2) = a0 * b0 + a1 * b1 + a2 * b2"

definition zero3 :: vec3 where
  "zero3 = (0, 0, 0)"

text \<open>
  \<open>vec4_to_qtn4(axis, angle)\<close>, called \<open>axis_angle_to_quaternion\<close> in ligand.cpp.
\<close>

definition vec4_to_qtn4 :: "vec3 \<Rightarrow> real \<Rightarrow> qtn4" where
  "vec4_to_qtn4 axis angle = (let h = angle * (1 / 2); s = sin h; c = cos h in
     (case axis of (x0, x1, x2) \<Rightarrow> (c, s * x0, s * x1, s * x2)))"

text \<open>\<open>operator*\<close> on two quaternions.\<close>

fun qmul :: "qtn4 \<Rightarrow> qtn4 \<Rightarrow> qtn4" where
  "qmul (a0, a1, a2, a3) (b0, b1, b2, b3) =
     (a0 * b0 - a1 * b1 - a2 * b2 - a3 * b3,
      a0 * b1 + a1 * b0 + a2 * b3 - a3 * b2,
      a0 * b2 - a1 * b3 + a2 * b0 + a3 * b1,
      a0 * b3 + a1 * b2 - a2 * b1 + a3 * b0)"

text \<open>\<open>qtn4_to_mat3\<close>, called \<open>quaternion_to_matrix\<close> in ligand.cpp.\<close>

fun qtn4_to_mat3 :: "qtn4 \<Rightarrow> mat3" where
  "qtn4_to_mat3 (a0, a1, a2, a3) =
     (let ww = a0 * a0; wx = a0 * a1; wy = a0 * a2; wz = a0 * a3;
          xx = a1 * a1; xy = a1 * a2; xz = a1 * a3;
          yy = a2 * a2; yz = a2 * a3; zz = a3 * a3
      in Mat3 (ww + xx - yy - zz) (2 * (- wz + xy)) (2 * (wy + xz))
              (2 * (wz + xy)) (ww - xx + yy - zz) (2 * (- wx + yz))
              (2 * (- wy + xz)) (2 * (wx + yz)) (ww - xx - yy + zz))"

fun mat_vec :: "mat3 \<Rightarrow> vec3 \<Rightarrow> vec3" where
  "mat_vec (Mat3 m0 m1 m2 m3 m4 m5 m6 m7 m8) (v0, v1, v2) =
     (m0 * v0 + m1 * v1 + m2 * v2,
      m3 * v0 + m4 * v1 + m5 * v2,
      m6 * v0 + m7 * v1 + m8 * v2)"

section \<open>Data model (ligand.hpp, ligand.cpp)\<close>

text \<open>
  Of an atom the ligand code reads its coordinate and its XScore type \<open>xs\<close>; the AutoDock
  type \<open>ad\<close> decides \<open>is_hydrogen\<close> and \<open>is_hetero\<close>, which live in atom.hpp.
\<close>

record atom =
  coordinate :: vec3
  ad :: nat
  xs :: nat

text \<open>
  A frame as ligand.cpp uses it: \<open>frame(parent, rotorX, habegin, hybegin)\<close> sets the four
  fields and \<open>active = true\<close>; \<open>yy\<close> is \<open>parent_rotorY_to_current_rotorY\<close> and \<open>xy\<close> is
  \<open>parent_rotorX_to_current_rotorY\<close>.
\<close>

record frame =
  parent :: nat
  rotorX :: nat
  rotorY :: nat
  habegin :: nat
  haend :: nat
  hybegin :: nat
  hyend :: nat
  active :: bool
  yy :: vec3
  xy :: vec3

record interacting_pair =
  i1 :: nat
  i2 :: nat
  type_pair_index :: nat

record ligand =
  frames :: "frame list"
  heavy_atoms :: "atom list"
  hydrogens :: "atom list"
  interacting_pairs :: "interacting_pair list"
  num_active_torsions :: nat

definition num_frames :: "ligand \<Rightarrow> nat" where
  "num_frames lig = length (frames lig)"

definition num_heavy_atoms :: "ligand \<Rightarrow> nat" where
  "num_heavy_atoms lig = length (heavy_atoms lig)"

definition num_hydrogens :: "ligand \<Rightarrow> nat" where
  "num_hydrogens lig = length (hydrogens lig)"

record conformation =
  position :: vec3
  orientation :: qtn4
  torsions :: "real list"

text \<open>
  The gradient \<open>change\<close>: \<open>g.position\<close>, \<open>g.orientation\<close>, \<open>g.torsions\<close>, and the flat
  index \<open>g[i]\<close> over \<open>6 + num_active_torsions\<close> entries.
\<close>

record change =
  g_position :: vec3
  g_orientation :: vec3
  g_torsions :: "real list"

fun vec3_nth :: "vec3 \<Rightarrow> nat \<Rightarrow> real" where
  "vec3_nth (a0, a1, a2) i = (if i = 0 then a0 else if i = 1 then a1 else a2)"

definition change_nth :: "change \<Rightarrow> nat \<Rightarrow> real" where
  "change_nth g i = (if i < 3 then vec3_nth (g_position g) i
     else if i < 6 then vec3_nth (g_orientation g) (i - 3)
     else g_torsions g ! (i - 6))"

record result =
  r_e :: real
  r_f :: real
  r_heavy_atoms :: "vec3 list"
  r_hydrogens :: "vec3 list"

section \<open>ligand::compose_result\<close>

record compose_state =
  origins :: "vec3 list"
  orientations_q :: "qtn4 list"
  orientations_m :: "mat3 list"
  out_heavy_atoms :: "vec3 list"
  out_hydrogens :: "vec3 list"

text \<open>One of the loops \<open>for (i = begin; i < end; ++i) out[i] = o + m * atoms[i].coordinate\<close>.\<close>

definition place_all :: "atom list \<Rightarrow> vec3 \<Rightarrow> mat3 \<Rightarrow> nat \<Rightarrow> nat \<Rightarrow> vec3 list \<Rightarrow> vec3 list" where
  "place_all as orig m b e out =
     fold (\<lambda>i cs. cs[i := vadd orig (mat_vec m (coordinate (as ! i)))]) [b..<e] out"

text \<open>The body of the BRANCH loop for frame \<open>k\<close>, with the torsion counter \<open>t\<close>.\<close>

definition compose_branch :: "ligand \<Rightarrow> conformation \<Rightarrow> nat \<Rightarrow> nat \<times> compose_state \<Rightarrow> nat \<times> compose_state" where
  "compose_branch lig conf k ts = (case ts of (t, s) \<Rightarrow>
     (let f = frames lig ! k;
          o_k = vadd (origins s ! parent f) (mat_vec (orientations_m s ! parent f) (yy f));
          angle = (if active f then torsions conf ! t else 0);
          t' = (if active f then t + 1 else t);
          q_k = qmul (vec4_to_qtn4 (mat_vec (orientations_m s ! parent f) (xy f)) angle)
                     (orientations_q s ! parent f);
          m_k = qtn4_to_mat3 q_k
      in (t', s\<lparr>origins := (origins s)[k := o_k],
               orientations_q := (orientations_q s)[k := q_k],
               orientations_m := (orientations_m s)[k := m_k],
               out_heavy_atoms := place_all (heavy_atoms lig) o_k m_k (habegin f) (haend f) (out_heavy_atoms s),
               out_hydrogens := place_all (hydrogens lig) o_k m_k (hybegin f) (hyend f) (out_hydrogens s)\<rparr>)))"

definition compose_init :: "ligand \<Rightarrow> conformation \<Rightarrow> compose_state" where
  "compose_init lig conf =
     (let root = frames lig ! 0;
          m0 = qtn4_to_mat3 (orientation conf)
      in \<lparr>origins = (replicate (num_frames lig) zero3)[0 := position conf],
          orientations_q = (replicate (num_frames lig) (0, 0, 0, 0))[0 := orientation conf],
          orientations_m = (replicate (num_frames lig) (Mat3 0 0 0 0 0 0 0 0 0))[0 := m0],
          out_heavy_atoms = place_all (heavy_atoms lig) (position conf) m0 (habegin root) (haend root)
             (replicate (num_heavy_atoms lig) zero3),
          out_hydrogens = place_all (hydrogens lig) (position conf) m0 (hybegin root) (hyend root)
             (replicate (num_hydrogens lig) zero3)\<rparr>)"

definition compose_result :: "ligand \<Rightarrow> real \<Rightarrow> real \<Rightarrow> conformation \<Rightarrow> result" where
  "compose_result lig e f conf =
     (let s = snd (fold (compose_branch lig conf) [1..<num_frames lig] (0, compose_init lig conf))
      in \<lparr>r_e = e, r_f = f, r_heavy_atoms = out_heavy_atoms s, r_hydrogens = out_hydrogens s\<rparr>)"

section \<open>Box, grid maps and scoring function (the evaluator's collaborators)\<close>

text \<open>
  The box as monte\_carlo\_task.cpp and ligand.cpp read it: \<open>corner1\<close>, \<open>corner2\<close>,
  \<open>grid_granularity_inverse\<close>, \<open>within\<close> (here \<open>box_within\<close>: \<open>within\<close> is taken by the
  library's syntax) and \<open>grid_index\<close>.
\<close>

record box =
  corner1 :: vec3
  corner2 :: vec3
  grid_granularity :: real
  grid_granularity_inverse :: real

text \<open>
  Modelled from the spec: \<open>box::within\<close> has no definition under src/ (receptor.hpp
  declares it: "true if a coordinate is within current half-open-half-close box"). A
  coordinate is within the half-open box iff \<open>corner1[d] \<le> c[d] < corner2[d]\<close> for all
  \<open>d\<close>.
\<close>

definition box_within :: "box \<Rightarrow> vec3 \<Rightarrow> bool" where
  "box_within b c = (case (corner1 b, corner2 b, c) of ((l0, l1, l2), (u0, u1, u2), (c0, c1, c2)) \<Rightarrow>
     l0 \<le> c0 \<and> c0 < u0 \<and> l1 \<le> c1 \<and> c1 < u1 \<and> l2 \<le> c2 \<and> c2 < u2)"

text \<open>
  Modelled from the spec: \<open>box::grid_index\<close> has no definition under src/;
  \<open>grid_index(c) = floor((c - corner) / granularity)\<close>.
\<close>

definition grid_index :: "box \<Rightarrow> vec3 \<Rightarrow> nat \<times> nat \<times> nat" where
  "grid_index b c = (case (corner1 b, c) of ((l0, l1, l2), (c0, c1, c2)) \<Rightarrow>
     (nat \<lfloor>(c0 - l0) / grid_granularity b\<rfloor>,
      nat \<lfloor>(c1 - l1) / grid_granularity b\<rfloor>,
      nat \<lfloor>(c2 - l2) / grid_granularity b\<rfloor>))"

text \<open>
  The grid maps are indexed by XScore type and then by \<open>(x, y, z)\<close>. The scoring function
  is its \<open>evaluate(type_pair_index, r2)\<close>, returning \<open>(e, dor)\<close>, and the class constant
  \<open>Cutoff_Sqr\<close>; scoring\_function.hpp is not under src/, so both are taken as given.
\<close>

type_synonym grid_maps = "nat \<Rightarrow> nat \<Rightarrow> nat \<Rightarrow> nat \<Rightarrow> real"

record scoring_function =
  sf_evaluate :: "nat \<Rightarrow> real \<Rightarrow> real \<times> real"
  Cutoff_Sqr :: real

section \<open>ligand::evaluate\<close>

record eval_state =
  origin :: "vec3 list"
  orientation_q :: "qtn4 list"
  orientation_m :: "mat3 list"
  axis :: "vec3 list"
  coordinates :: "vec3 list"

text \<open>
  The coordinate loops of evaluate: \<open>coordinates[i] = o + m * heavy_atoms[i].coordinate\<close>,
  returning false (here \<open>None\<close>) at the first coordinate outside the box.
\<close>

fun place_within :: "box \<Rightarrow> atom list \<Rightarrow> vec3 \<Rightarrow> mat3 \<Rightarrow> nat list \<Rightarrow> vec3 list \<Rightarrow> vec3 list option" where
  "place_within b as orig m [] cs = Some cs"
| "place_within b as orig m (i # is) cs =
     (let c = vadd orig (mat_vec m (coordinate (as ! i)))
      in if \<not> box_within b c then None else place_within b as orig m is (cs[i := c]))"

text \<open>
  The BRANCH loop \<open>for (k = 1, t = 0; k < num_frames; ++k)\<close> over the frame indices still to
  visit. An inactive frame only gets its origin and the coordinate of its rotorY.
\<close>

fun eval_branches :: "ligand \<Rightarrow> conformation \<Rightarrow> box \<Rightarrow> nat list \<Rightarrow> nat \<Rightarrow> eval_state \<Rightarrow> eval_state option" where
  "eval_branches lig conf b [] t s = Some s"
| "eval_branches lig conf b (k # ks) t s =
     (let f = frames lig ! k;
          o_k = vadd (origin s ! parent f) (mat_vec (orientation_m s ! parent f) (yy f));
          s1 = s\<lparr>origin := (origin s)[k := o_k]\<rparr>
      in if \<not> box_within b o_k then None
         else if \<not> active f then
           eval_branches lig conf b ks t (s1\<lparr>coordinates := (coordinates s1)[rotorY f := o_k]\<rparr>)
         else
           (let a_k = mat_vec (orientation_m s1 ! parent f) (xy f);
                q_k = qmul (vec4_to_qtn4 a_k (torsions conf ! t)) (orientation_q s1 ! parent f);
                m_k = qtn4_to_mat3 q_k;
                s2 = s1\<lparr>axis := (axis s1)[k := a_k],
                        orientation_q := (orientation_q s1)[k := q_k],
                        orientation_m := (orientation_m s1)[k := m_k]\<rparr>
            in case place_within b (heavy_atoms lig) o_k m_k [habegin f..<haend f] (coordinates s2) of
                 None \<Rightarrow> None
               | Some cs \<Rightarrow> eval_branches lig conf b ks (t + 1) (s2\<lparr>coordinates := cs\<rparr>)))"

definition eval_init :: "ligand \<Rightarrow> conformation \<Rightarrow> eval_state" where
  "eval_init lig conf =
     \<lparr>origin = (replicate (num_frames lig) zero3)[0 := position conf],
      orientation_q = (replicate (num_frames lig) (0, 0, 0, 0))[0 := orientation conf],
      orientation_m = (replicate (num_frames lig) (Mat3 0 0 0 0 0 0 0 0 0))[0 := qtn4_to_mat3 (orientation conf)],
      axis = replicate (num_frames lig) zero3,
      coordinates = replicate (num_heavy_atoms lig) zero3\<rparr>"

text \<open>
  The forward-kinematics pass of evaluate, lines 346 to 418: \<open>None\<close> is \<open>return false\<close>.
\<close>

definition eval_kinematics :: "ligand \<Rightarrow> conformation \<Rightarrow> box \<Rightarrow> eval_state option" where
  "eval_kinematics lig conf b =
     (if \<not> box_within b (position conf) then None
      else
        (let s0 = eval_init lig conf;
             root = frames lig ! 0
         in case place_within b (heavy_atoms lig) (origin s0 ! 0) (orientation_m s0 ! 0)
                   [habegin root..<haend root] (coordinates s0) of
              None \<Rightarrow> None
            | Some cs \<Rightarrow> eval_branches lig conf b [1..<num_frames lig] 0 (s0\<lparr>coordinates := cs\<rparr>)))"

text \<open>
  The inter-molecular loop over the heavy atoms: the state is \<open>(e, energies, derivatives)\<close>.
\<close>

definition inter_step :: "ligand \<Rightarrow> box \<Rightarrow> grid_maps \<Rightarrow> vec3 list \<Rightarrow> nat \<Rightarrow>
    real \<times> real list \<times> vec3 list \<Rightarrow> real \<times> real list \<times> vec3 list" where
  "inter_step lig b maps coords i st = (case st of (e, energies, derivatives) \<Rightarrow>
     (let grid_map = maps (xs (heavy_atoms lig ! i))
      in case grid_index b (coords ! i) of (x0, y0, z0) \<Rightarrow>
        (let e000 = grid_map x0 y0 z0;
             e100 = grid_map (x0 + 1) y0 z0;
             e010 = grid_map x0 (y0 + 1) z0;
             e001 = grid_map x0 y0 (z0 + 1)
         in (e + e000, energies[i := e000],
             derivatives[i := ((e100 - e000) * grid_granularity_inverse b,
                               (e010 - e000) * grid_granularity_inverse b,
                               (e001 - e000) * grid_granularity_inverse b)]))))"

text \<open>The intra-ligand loop over the interacting pairs: the state is \<open>(e, derivatives)\<close>.\<close>

definition intra_step :: "scoring_function \<Rightarrow> vec3 list \<Rightarrow> interacting_pair \<Rightarrow>
    real \<times> vec3 list \<Rightarrow> real \<times> vec3 list" where
  "intra_step sf coords p st = (case st of (e, derivatives) \<Rightarrow>
     (let r = vsub (coords ! i2 p) (coords ! i1 p);
          r2 = norm_sqr3 r
      in if r2 < Cutoff_Sqr sf then
           (case sf_evaluate sf (type_pair_index p) r2 of (el_e, el_dor) \<Rightarrow>
             (let derivative = smul3 el_dor r;
                  d1 = derivatives[i1 p := vsub (derivatives ! i1 p) derivative];
                  d2 = d1[i2 p := vadd (d1 ! i2 p) derivative]
              in (e + el_e, d2)))
         else (e, derivatives)))"

text \<open>
  The atoms of one frame add to its force and torque:
  \<open>force[k] += derivatives[i]; torque[k] += (coordinates[i] - origin[k]) x derivatives[i]\<close>.
\<close>

definition frame_force :: "vec3 list \<Rightarrow> vec3 list \<Rightarrow> vec3 \<Rightarrow> nat \<Rightarrow> nat \<Rightarrow> vec3 \<times> vec3 \<Rightarrow> vec3 \<times> vec3" where
  "frame_force coords derivatives o_k b e ft =
     fold (\<lambda>i (fo, tq). (vadd fo (derivatives ! i),
                          vadd tq (cross_product (vsub (coords ! i) o_k) (derivatives ! i))))
          [b..<e] ft"

text \<open>
  The body of the reverse BRANCH loop \<open>for (k = num_frames - 1, t = num_active_torsions; k > 0; --k)\<close>:
  the state is \<open>(t, force, torque, g.torsions)\<close>.
\<close>

definition grad_branch :: "ligand \<Rightarrow> eval_state \<Rightarrow> vec3 list \<Rightarrow> nat \<Rightarrow>
    nat \<times> vec3 list \<times> vec3 list \<times> real list \<Rightarrow> nat \<times> vec3 list \<times> vec3 list \<times> real list" where
  "grad_branch lig s derivatives k st = (case st of (t, force, torque, gt) \<Rightarrow>
     (let f = frames lig ! k
      in case frame_force (coordinates s) derivatives (origin s ! k) (habegin f) (haend f)
                (force ! k, torque ! k) of (fo_k, tq_k) \<Rightarrow>
        (let force1 = force[k := fo_k];
             torque1 = torque[k := tq_k];
             force2 = force1[parent f := vadd (force1 ! parent f) (force1 ! k)];
             torque2 = torque1[parent f := vadd (torque1 ! parent f)
                (vadd (torque1 ! k) (cross_product (vsub (origin s ! k) (origin s ! parent f)) (force2 ! k)))]
         in if \<not> active f then (t, force2, torque2, gt)
            else (t - 1, force2, torque2, gt[t - 1 := dot3 (torque2 ! k) (axis s ! k)]))))"

text \<open>
  The energy part of evaluate, lines 440 to 491: the total energy \<open>e\<close>, the
  inter-molecular energy saved into \<open>f\<close>, and the derivatives of the heavy atoms.
\<close>

definition eval_energy :: "ligand \<Rightarrow> scoring_function \<Rightarrow> box \<Rightarrow> grid_maps \<Rightarrow> vec3 list \<Rightarrow> real \<times> real \<times> vec3 list" where
  "eval_energy lig sf b maps coords =
     (case fold (inter_step lig b maps coords) [0..<num_heavy_atoms lig]
             (0, replicate (num_heavy_atoms lig) 0, replicate (num_heavy_atoms lig) zero3) of
        (e_inter, energies, derivatives0) \<Rightarrow>
          (case fold (intra_step sf coords) (interacting_pairs lig) (e_inter, derivatives0) of
             (e_total, derivatives) \<Rightarrow> (e_total, e_inter, derivatives)))"

text \<open>The gradient part of evaluate, lines 496 to 539: what it leaves in \<open>g\<close>.\<close>

definition eval_gradient :: "ligand \<Rightarrow> eval_state \<Rightarrow> vec3 list \<Rightarrow> change \<Rightarrow> change" where
  "eval_gradient lig s derivatives g =
     (case fold (grad_branch lig s derivatives) (rev [1..<num_frames lig])
             (num_active_torsions lig, replicate (num_frames lig) zero3,
              replicate (num_frames lig) zero3, g_torsions g) of
        (t, force, torque, gt) \<Rightarrow>
          (let root = frames lig ! 0
           in case frame_force (coordinates s) derivatives (origin s ! 0)
                     (habegin root) (haend root) (force ! 0, torque ! 0) of
                (fo_0, tq_0) \<Rightarrow> g\<lparr>g_torsions := gt, g_position := fo_0, g_orientation := tq_0\<rparr>))"

text \<open>
  \<open>ligand::evaluate\<close>. The outputs \<open>e\<close>, \<open>f\<close> and \<open>g\<close> are reference parameters: the model
  takes their values before the call and returns the returned flag with their values after
  the call.
\<close>

definition evaluate :: "ligand \<Rightarrow> conformation \<Rightarrow> scoring_function \<Rightarrow> box \<Rightarrow> grid_maps \<Rightarrow> real \<Rightarrow>
    real \<times> real \<times> change \<Rightarrow> bool \<times> real \<times> real \<times> change" where
  "evaluate lig conf sf b maps bound efg =
     (case eval_kinematics lig conf b of
        None \<Rightarrow> (False, efg)
      | Some s \<Rightarrow>
          (let en = eval_energy lig sf b maps (coordinates s);
               e = fst en;
               f = fst (snd en)
           in if e \<ge> bound then (False, e, f, snd (snd efg))
              else (True, e, f, eval_gradient lig s (snd (snd en)) (snd (snd efg)))))"

text \<open>
  The world coordinate that evaluate and compose\_result give heavy atom \<open>i\<close> of a frame with
  origin \<open>orig\<close> and orientation matrix \<open>m\<close>: \<open>orig + m * heavy_atoms[i].coordinate\<close>.
\<close>

definition atom_world :: "ligand \<Rightarrow> vec3 \<Rightarrow> mat3 \<Rightarrow> nat \<Rightarrow> vec3" where
  "atom_world lig orig m i = vadd orig (mat_vec m (coordinate (heavy_atoms lig ! i)))"

text \<open>
  The forward-kinematics pass of evaluate with the box tests left out: the body of the
  BRANCH loop, the state after the ROOT loop, and the state after the whole pass. These
  are what the tests of evaluate are stated about: the pass of evaluate itself stops at the
  first point outside the box.
\<close>

definition fk_step :: "ligand \<Rightarrow> conformation \<Rightarrow> nat \<Rightarrow> nat \<times> eval_state \<Rightarrow> nat \<times> eval_state" where
  "fk_step lig conf k ts =
     (let t = fst ts; s = snd ts;
          f = frames lig ! k;
          o_k = vadd (origin s ! parent f) (mat_vec (orientation_m s ! parent f) (yy f));
          s1 = s\<lparr>origin := (origin s)[k := o_k]\<rparr>
      in if \<not> active f then (t, s1\<lparr>coordinates := (coordinates s1)[rotorY f := o_k]\<rparr>)
         else
           (let a_k = mat_vec (orientation_m s1 ! parent f) (xy f);
                q_k = qmul (vec4_to_qtn4 a_k (torsions conf ! t)) (orientation_q s1 ! parent f);
                m_k = qtn4_to_mat3 q_k
            in (t + 1, s1\<lparr>axis := (axis s1)[k := a_k],
                          orientation_q := (orientation_q s1)[k := q_k],
                          orientation_m := (orientation_m s1)[k := m_k],
                          coordinates := place_all (heavy_atoms lig) o_k m_k (habegin f) (haend f) (coordinates s1)\<rparr>)))"

definition fk_root :: "ligand \<Rightarrow> conformation \<Rightarrow> eval_state" where
  "fk_root lig conf =
     (let s0 = eval_init lig conf; root = frames lig ! 0
      in s0\<lparr>coordinates := place_all (heavy_atoms lig) (origin s0 ! 0) (orientation_m s0 ! 0)
                               (habegin root) (haend root) (coordinates s0)\<rparr>)"

definition fk :: "ligand \<Rightarrow> conformation \<Rightarrow> eval_state" where
  "fk lig conf = snd (fold (fk_step lig conf) [1..<num_frames lig] (0, fk_root lig conf))"

text \<open>
  Whether the origin of frame \<open>k\<close> and, for an active frame, the world coordinates of its
  heavy atoms are within the box, read from the state \<open>s\<close>.
\<close>

definition frame_within :: "ligand \<Rightarrow> box \<Rightarrow> eval_state \<Rightarrow> nat \<Rightarrow> bool" where
  "frame_within lig b s k =
     (box_within b (origin s ! k) \<and>
      (\<not> active (frames lig ! k) \<or>
       list_all (\<lambda>i. box_within b (atom_world lig (origin s ! k) (orientation_m s ! k) i))
         [habegin (frames lig ! k)..<haend (frames lig ! k)]))"

section \<open>ligand::ligand: parsing\<close>

text \<open>
  A line of the input as the constructor reads it. An \<open>ATOM\<close> or \<open>HETATM\<close> line gives its
  serial number (columns 7 to 11), the AutoDock type string (from column 78) and its
  coordinate (columns 31 to 54); a \<open>BRANCH\<close> line gives \<open>x\<close> (columns 7 to 10) and an
  \<open>ENDBRANCH\<close> line gives \<open>y\<close> (columns 14 to 17), each with the other serial number of the
  line, which is not read; \<open>ROOT\<close>, \<open>ENDROOT\<close> and \<open>TORSDOF\<close> lines are only kept for the
  output, and any other line is skipped. Cutting the fields out of the text is
  \<open>right_cast\<close> and \<open>substr\<close>, outside this development.
\<close>

datatype line =
    ATOM nat string vec3
  | BRANCH nat nat
  | ENDBRANCH nat nat
  | KEPT
  | SKIPPED

text \<open>
  What ends the constructor early: the exception \<open>parsing_error\<close> with the line number and
  the message, a failed \<open>BOOST_ASSERT\<close>, and a serial-number search that runs off the end
  of \<open>numbers\<close> (the loops \<open>for (i = f->habegin; true; ++i)\<close> have no bound).
\<close>

datatype error =
    parsing_error nat string
  | assertion_failure
  | out_of_range

text \<open>
  What atom.hpp provides and src/ does not hold: the type parser and its constants, the
  XScore type of an AutoDock type, the predicates and the two mutators of an atom.
\<close>

record atom_ops =
  parse_ad_type_string :: "string \<Rightarrow> nat"
  AD_TYPE_SIZE :: nat
  AD_TYPE_HD :: nat
  ad_to_xs :: "nat \<Rightarrow> nat"
  is_hydrogen :: "atom \<Rightarrow> bool"
  is_hetero :: "atom \<Rightarrow> bool"
  is_neighbor :: "atom \<Rightarrow> atom \<Rightarrow> bool"
  donorize :: "atom \<Rightarrow> atom"
  dehydrophobicize :: "atom \<Rightarrow> atom"

text \<open>
  \<open>frame(parent, rotorX, habegin, hybegin)\<close>; the fields the constructor does not set are
  given \<open>0\<close> here, and each of them is assigned before the ligand is finished.
\<close>

definition mk_frame :: "nat \<Rightarrow> nat \<Rightarrow> nat \<Rightarrow> nat \<Rightarrow> frame" where
  "mk_frame p x ha hy = \<lparr>parent = p, rotorX = x, rotorY = 0, habegin = ha, haend = 0,
     hybegin = hy, hyend = 0, active = True, yy = (0, 0, 0), xy = (0, 0, 0)\<rparr>"

record parser =
  p_frames :: "frame list"
  p_heavy_atoms :: "atom list"
  p_hydrogens :: "atom list"
  numbers :: "nat list"
  current :: nat
  p_num_active_torsions :: nat
  num_lines :: nat

definition parser_init :: parser where
  "parser_init = \<lparr>p_frames = [mk_frame 0 0 0 0], p_heavy_atoms = [], p_hydrogens = [], numbers = [],
     current = 0, p_num_active_torsions = 0, num_lines = 0\<rparr>"

text \<open>
  The scan for the donor of a polar hydrogen \<open>a\<close>, over the heavy atoms of the current frame
  from the last to the first: the first hetero atom that is a neighbor is donorized.
\<close>

fun donor_scan :: "atom_ops \<Rightarrow> atom \<Rightarrow> nat list \<Rightarrow> atom list \<Rightarrow> atom list" where
  "donor_scan ops a [] has = has"
| "donor_scan ops a (i # is) has =
     (let b = has ! i
      in if \<not> is_hetero ops b then donor_scan ops a is has
         else if is_neighbor ops a b then has[i := donorize ops b]
         else donor_scan ops a is has)"

text \<open>
  \<open>for (i = from; true; ++i) if (numbers[i] == x)\<close>: the first index from \<open>from\<close> on that
  holds \<open>x\<close>, or \<open>None\<close> when the search leaves the vector.
\<close>

definition find_number :: "nat list \<Rightarrow> nat \<Rightarrow> nat \<Rightarrow> nat option" where
  "find_number ns from x = List.find (\<lambda>i. ns ! i = x) [from..<length ns]"

definition parse_atom :: "atom_ops \<Rightarrow> nat \<Rightarrow> string \<Rightarrow> vec3 \<Rightarrow> parser \<Rightarrow> error + parser" where
  "parse_atom ops serial ad_type_string c s =
     (if current s \<noteq> length (p_frames s) - 1 then Inl assertion_failure
      else
        (let ad_type = parse_ad_type_string ops ad_type_string
         in if ad_type = AD_TYPE_SIZE ops then
              Inl (parsing_error (num_lines s)
                     (''Atom type '' @ ad_type_string @ '' is not supported by idock.''))
            else
              (let a = \<lparr>coordinate = c, ad = ad_type, xs = ad_to_xs ops ad_type\<rparr>
               in if is_hydrogen ops a then
                    (let s1 = s\<lparr>p_hydrogens := p_hydrogens s @ [a]\<rparr>
                     in if ad_type = AD_TYPE_HD ops then
                          Inr (s1\<lparr>p_heavy_atoms := donor_scan ops a
                                 (rev [habegin (p_frames s ! current s)..<length (p_heavy_atoms s)])
                                 (p_heavy_atoms s)\<rparr>)
                        else Inr s1)
                  else Inr (s\<lparr>p_heavy_atoms := p_heavy_atoms s @ [a], numbers := numbers s @ [serial]\<rparr>))))"

definition parse_branch :: "nat \<Rightarrow> parser \<Rightarrow> error + parser" where
  "parse_branch x s =
     (case find_number (numbers s) (habegin (p_frames s ! current s)) x of
        None \<Rightarrow> Inl out_of_range
      | Some i \<Rightarrow>
          (let fs = p_frames s @ [mk_frame (current s) i (length (p_heavy_atoms s)) (length (p_hydrogens s))];
               cur = length fs - 1;
               f = fs ! cur;
               fs1 = fs[cur - 1 := (fs ! (cur - 1))\<lparr>haend := habegin f\<rparr>];
               fs2 = fs1[cur - 1 := (fs1 ! (cur - 1))\<lparr>hyend := hybegin f\<rparr>]
           in Inr (s\<lparr>p_frames := fs2, current := cur\<rparr>)))"

definition parse_endbranch :: "nat \<Rightarrow> parser \<Rightarrow> error + parser" where
  "parse_endbranch y s =
     (let f = p_frames s ! current s
      in if habegin f = length (p_heavy_atoms s) then
           Inl (parsing_error (num_lines s)
                  ''An empty BRANCH has been detected, indicating the input ligand structure is probably invalid.'')
         else
           (case find_number (numbers s) (habegin f) y of
              None \<Rightarrow> Inl out_of_range
            | Some i \<Rightarrow>
                (let fs = (p_frames s)[current s := f\<lparr>rotorY := i\<rparr>];
                     s1 = (if current s = length fs - 1 \<and> habegin f + 1 = length (p_heavy_atoms s)
                           then s\<lparr>p_frames := fs[current s := (fs ! current s)\<lparr>active := False\<rparr>]\<rparr>
                           else s\<lparr>p_frames := fs, p_num_active_torsions := p_num_active_torsions s + 1\<rparr>)
                 in Inr (s1\<lparr>current := parent (p_frames s1 ! current s)\<rparr>))))"

text \<open>One iteration of \<open>while (getline(in, line))\<close>.\<close>

definition parse_line :: "atom_ops \<Rightarrow> line \<Rightarrow> parser \<Rightarrow> error + parser" where
  "parse_line ops l s0 =
     (let s = s0\<lparr>num_lines := num_lines s0 + 1\<rparr>
      in case l of
           ATOM serial ty c \<Rightarrow> parse_atom ops serial ty c s
         | BRANCH x y \<Rightarrow> parse_branch x s
         | ENDBRANCH x y \<Rightarrow> parse_endbranch y s
         | KEPT \<Rightarrow> Inr s
         | SKIPPED \<Rightarrow> Inr s)"

fun parse_lines :: "atom_ops \<Rightarrow> line list \<Rightarrow> parser \<Rightarrow> error + parser" where
  "parse_lines ops [] s = Inr s"
| "parse_lines ops (l # ls) s =
     (case parse_line ops l s of Inl e \<Rightarrow> Inl e | Inr s' \<Rightarrow> parse_lines ops ls s')"

text \<open>
  The checks between the end of the loop and the post-parse passes, lines 168 to 185, and
  the closing of the last frame.
\<close>

definition parse_finish :: "parser \<Rightarrow> error + parser" where
  "parse_finish s =
     (if current s \<noteq> 0 then Inl assertion_failure
      else if \<not> (p_num_active_torsions s \<le> length (p_frames s) - 1) then Inl assertion_failure
      else if \<not> (length (p_heavy_atoms s) + length (p_hydrogens s) + 2 * (length (p_frames s) - 1) + 3
                   \<le> num_lines s) then Inl assertion_failure
      else
        (let last = length (p_frames s) - 1
         in Inr (s\<lparr>p_frames := (p_frames s)[last := (p_frames s ! last)
                   \<lparr>haend := length (p_heavy_atoms s), hyend := length (p_hydrogens s)\<rparr>]\<rparr>)))"

definition parse :: "atom_ops \<Rightarrow> line list \<Rightarrow> error + parser" where
  "parse ops ls = (case parse_lines ops ls parser_init of Inl e \<Rightarrow> Inl e | Inr s \<Rightarrow> parse_finish s)"

section \<open>ligand::ligand: the passes after parsing\<close>

text \<open>
  Dehydrophobicize, lines 188 to 216: within a frame every non-hetero atom that is a
  neighbor of a hetero atom, and across a joint the non-hetero one of \<open>rotorX\<close> and
  \<open>rotorY\<close> when the other is a hetero atom.
\<close>

definition dehydro_atoms :: "atom_ops \<Rightarrow> nat \<Rightarrow> nat \<Rightarrow> atom list \<Rightarrow> atom list" where
  "dehydro_atoms ops lo hi has =
     fold (\<lambda>i h. if \<not> is_hetero ops (h ! i) then h
                  else fold (\<lambda>j h'. if is_hetero ops (h' ! j) then h'
                                      else if is_neighbor ops (h' ! i) (h' ! j)
                                           then h'[j := dehydrophobicize ops (h' ! j)] else h')
                            [lo..<hi] h)
          [lo..<hi] has"

definition dehydro_rotor :: "atom_ops \<Rightarrow> frame \<Rightarrow> atom list \<Rightarrow> atom list" where
  "dehydro_rotor ops f has =
     (let h1 = (if is_hetero ops (has ! rotorY f) \<and> \<not> is_hetero ops (has ! rotorX f)
                then has[rotorX f := dehydrophobicize ops (has ! rotorX f)] else has)
      in if is_hetero ops (h1 ! rotorX f) \<and> \<not> is_hetero ops (h1 ! rotorY f)
         then h1[rotorY f := dehydrophobicize ops (h1 ! rotorY f)] else h1)"

definition dehydrophobicize_all :: "atom_ops \<Rightarrow> frame list \<Rightarrow> atom list \<Rightarrow> atom list" where
  "dehydrophobicize_all ops fs has =
     fold (\<lambda>k h. (let f = fs ! k;
                      h1 = dehydro_atoms ops (habegin f) (haend f) h
                  in if k \<noteq> 0 then dehydro_rotor ops f h1 else h1))
          [0..<length fs] has"

text \<open>
  The rotor vectors of the BRANCH frames, lines 219 to 225, from the coordinates as they
  were read.
\<close>

definition set_rotor_vectors :: "atom list \<Rightarrow> frame list \<Rightarrow> frame list" where
  "set_rotor_vectors has fs =
     fold (\<lambda>k fs'. (let f = fs' ! k; p = fs' ! parent f
                    in fs'[k := f\<lparr>yy := vsub (coordinate (has ! rotorY f)) (coordinate (has ! rotorY p)),
                                   xy := normalize3 (vsub (coordinate (has ! rotorY f))
                                                          (coordinate (has ! rotorX f)))\<rparr>]))
          [1..<length fs] fs"

text \<open>
  The bonds, lines 228 to 256: \<open>bonds[i].push_back(j); bonds[j].push_back(i)\<close> for every
  pair \<open>i < j\<close> of neighbors within a frame, and for \<open>rotorY\<close> and \<open>rotorX\<close> of every BRANCH
  frame.
\<close>

definition add_bond :: "nat \<Rightarrow> nat \<Rightarrow> nat list list \<Rightarrow> nat list list" where
  "add_bond i j bonds = (let b1 = bonds[i := bonds ! i @ [j]] in b1[j := b1 ! j @ [i]])"

definition frame_bonds :: "atom_ops \<Rightarrow> atom list \<Rightarrow> nat \<Rightarrow> nat \<Rightarrow> nat list list \<Rightarrow> nat list list" where
  "frame_bonds ops has lo hi bonds =
     fold (\<lambda>i b. fold (\<lambda>j b'. if is_neighbor ops (has ! i) (has ! j) then add_bond i j b' else b')
                       [i + 1..<hi] b)
          [lo..<hi] bonds"

definition build_bonds :: "atom_ops \<Rightarrow> frame list \<Rightarrow> atom list \<Rightarrow> nat list list" where
  "build_bonds ops fs has =
     fold (\<lambda>k b. (let f = fs ! k;
                      b1 = frame_bonds ops has (habegin f) (haend f) b
                  in if k \<noteq> 0 then add_bond (rotorY f) (rotorX f) b1 else b1))
          [0..<length fs] (replicate (length has) [])"

text \<open>
  The neighbors of atom \<open>i\<close> within three consecutive bonds, lines 268 to 297: every
  \<open>b1\<close> bonded to \<open>i\<close>, every \<open>b2\<close> bonded to such a \<open>b1\<close> and every \<open>b3\<close> bonded to such a
  \<open>b2\<close> is pushed unless it is in the vector already.
\<close>

definition add_neighbor :: "nat \<Rightarrow> nat list \<Rightarrow> nat list" where
  "add_neighbor b neighbors = (if b \<in> set neighbors then neighbors else neighbors @ [b])"

definition find_neighbors :: "nat list list \<Rightarrow> nat \<Rightarrow> nat list" where
  "find_neighbors bonds i =
     fold (\<lambda>b1 n1. fold (\<lambda>b2 n2. fold (\<lambda>b3 n3. add_neighbor b3 n3) (bonds ! b2) (add_neighbor b2 n2))
                         (bonds ! b1) (add_neighbor b1 n1))
          (bonds ! i) []"

text \<open>
  The interacting pairs, lines 262 to 314: the loops over \<open>k1\<close>, \<open>i\<close>, \<open>k2\<close> and \<open>j\<close> push
  their pairs in this order, so the vector is the concatenation of what each atom \<open>i\<close>
  contributes.
\<close>

definition atom_pairs :: "frame list \<Rightarrow> atom list \<Rightarrow> nat list \<Rightarrow> nat \<Rightarrow> nat \<Rightarrow> interacting_pair list" where
  "atom_pairs fs has neighbors k1 i =
     concat (map (\<lambda>k2. (let f2 = fs ! k2
                        in map (\<lambda>j. \<lparr>i1 = i, i2 = j, type_pair_index = mp (xs (has ! i)) (xs (has ! j))\<rparr>)
                             (filter (\<lambda>j. \<not> ((k1 = parent f2 \<and> (j = rotorY f2 \<or> i = rotorX f2))
                                              \<or> j \<in> set neighbors))
                                     [habegin f2..<haend f2])))
                 [k1 + 1..<length fs])"

definition find_pairs :: "frame list \<Rightarrow> atom list \<Rightarrow> nat list list \<Rightarrow> interacting_pair list" where
  "find_pairs fs has bonds =
     concat (map (\<lambda>k1. concat (map (\<lambda>i. atom_pairs fs has (find_neighbors bonds i) k1 i)
                                    [habegin (fs ! k1)..<haend (fs ! k1)]))
                 [0..<length fs])"

text \<open>
  Relative coordinates, lines 317 to 329: the coordinate of \<open>rotorY\<close> is subtracted from
  the heavy atoms and the hydrogens of its frame.
\<close>

definition relativize :: "frame list \<Rightarrow> atom list \<times> atom list \<Rightarrow> atom list \<times> atom list" where
  "relativize fs hh =
     fold (\<lambda>k (has, hys).
             (let f = fs ! k;
                  orig = coordinate (has ! rotorY f)
              in (fold (\<lambda>i h. h[i := (h ! i)\<lparr>coordinate := vsub (coordinate (h ! i)) orig\<rparr>])
                       [habegin f..<haend f] has,
                  fold (\<lambda>i h. h[i := (h ! i)\<lparr>coordinate := vsub (coordinate (h ! i)) orig\<rparr>])
                       [hybegin f..<hyend f] hys)))
          [0..<length fs] hh"

text \<open>
  The heavy atoms as they are when the bonds and the pairs are computed: after the
  dehydrophobicize pass, with the coordinates of the input.
\<close>

definition ctor_atoms :: "atom_ops \<Rightarrow> parser \<Rightarrow> atom list" where
  "ctor_atoms ops s = dehydrophobicize_all ops (p_frames s) (p_heavy_atoms s)"

text \<open>The constructor: the ligand, or what stopped it.\<close>

definition ligand_ctor :: "atom_ops \<Rightarrow> line list \<Rightarrow> error + ligand" where
  "ligand_ctor ops ls =
     (case parse ops ls of
        Inl e \<Rightarrow> Inl e
      | Inr s \<Rightarrow>
          (let has = ctor_atoms ops s;
               fs = set_rotor_vectors has (p_frames s);
               bonds = build_bonds ops fs has;
               pairs = find_pairs fs has bonds;
               rel = relativize fs (has, p_hydrogens s)
           in Inr \<lparr>frames = fs, heavy_atoms = fst rel, hydrogens = snd rel,
                   interacting_pairs = pairs, num_active_torsions = p_num_active_torsions s\<rparr>))"

text \<open>
  The bond graph as the specification words it, to be compared with the bond lists that
  \<open>build_bonds\<close> fills: frame \<open>k\<close> bonds two of its heavy atoms that are neighbors
  (\<open>is_neighbor\<close> is asked of the lower index) and, when it is a BRANCH frame, its \<open>rotorX\<close>
  and \<open>rotorY\<close>; \<open>within3\<close> is being joined by one, two or three consecutive bonds.
\<close>

definition bond_of_frame :: "atom_ops \<Rightarrow> frame list \<Rightarrow> atom list \<Rightarrow> nat \<Rightarrow> nat \<Rightarrow> nat \<Rightarrow> bool" where
  "bond_of_frame ops fs has k a c =
     ((habegin (fs ! k) \<le> a \<and> a < c \<and> c < haend (fs ! k) \<and> is_neighbor ops (has ! a) (has ! c))
      \<or> (habegin (fs ! k) \<le> c \<and> c < a \<and> a < haend (fs ! k) \<and> is_neighbor ops (has ! c) (has ! a))
      \<or> (k \<noteq> 0 \<and> ((a = rotorY (fs ! k) \<and> c = rotorX (fs ! k)) \<or> (a = rotorX (fs ! k) \<and> c = rotorY (fs ! k)))))"

definition bonded :: "atom_ops \<Rightarrow> frame list \<Rightarrow> atom list \<Rightarrow> nat \<Rightarrow> nat \<Rightarrow> bool" where
  "bonded ops fs has a c = (\<exists>k<length fs. bond_of_frame ops fs has k a c)"

definition within3 :: "(nat \<Rightarrow> nat \<Rightarrow> bool) \<Rightarrow> nat \<Rightarrow> nat \<Rightarrow> bool" where
  "within3 B i j = (B i j \<or> (\<exists>b1. B i b1 \<and> B b1 j) \<or> (\<exists>b1 b2. B i b1 \<and> B b1 b2 \<and> B b2 j))"

text \<open>
  What the parsing loop keeps true of the frames read so far, \<open>n\<close> being the number of heavy
  atoms read: the heavy atoms of consecutive frames are consecutive ranges, every frame
  begins within the atoms read, every parent is a frame, and the rotors of a BRANCH frame
  are atoms read. \<open>frames_ok\<close> is what follows for the finished frames.
\<close>

definition frames_inv :: "frame list \<Rightarrow> nat \<Rightarrow> bool" where
  "frames_inv fs n =
     ((\<forall>k. Suc k < length fs \<longrightarrow> haend (fs ! k) = habegin (fs ! Suc k) \<and> habegin (fs ! k) \<le> habegin (fs ! Suc k))
      \<and> (\<forall>k<length fs. habegin (fs ! k) \<le> n \<and> parent (fs ! k) < length fs
            \<and> (k \<noteq> 0 \<longrightarrow> rotorX (fs ! k) < n \<and> rotorY (fs ! k) < n)))"

definition parser_inv :: "parser \<Rightarrow> bool" where
  "parser_inv s = (p_frames s \<noteq> [] \<and> length (numbers s) = length (p_heavy_atoms s)
      \<and> current s < length (p_frames s) \<and> frames_inv (p_frames s) (length (p_heavy_atoms s)))"

definition frames_ok :: "frame list \<Rightarrow> nat \<Rightarrow> bool" where
  "frames_ok fs n =
     ((\<forall>k<length fs. haend (fs ! k) \<le> n \<and> (k \<noteq> 0 \<longrightarrow> rotorX (fs ! k) < n \<and> rotorY (fs ! k) < n))
      \<and> (\<forall>k. Suc k < length fs \<longrightarrow> haend (fs ! k) \<le> habegin (fs ! Suc k))
      \<and> (\<forall>k<length fs. habegin (fs ! k) \<le> haend (fs ! k)))"

text \<open>
  What the parsing loop keeps true of the BRANCH frames read so far: the parent of a frame
  is an earlier frame that is the root or active, and a frame that has been made inactive is
  not the current one, has its \<open>rotorY\<close> at \<open>habegin\<close> and is followed at once, by the next
  frame or by the end of the heavy atoms read.
\<close>

definition branch_inv :: "parser \<Rightarrow> bool" where
  "branch_inv s =
     (parent (p_frames s ! 0) = 0
      \<and> (\<forall>k<length (p_frames s). 0 < k \<longrightarrow>
            parent (p_frames s ! k) < k
          \<and> (parent (p_frames s ! k) = 0 \<or> active (p_frames s ! parent (p_frames s ! k)))
          \<and> (\<not> active (p_frames s ! k) \<longrightarrow>
                k \<noteq> current s \<and> rotorY (p_frames s ! k) = habegin (p_frames s ! k)
              \<and> (if Suc k < length (p_frames s)
                  then habegin (p_frames s ! Suc k) = Suc (habegin (p_frames s ! k))
                  else length (p_heavy_atoms s) = Suc (habegin (p_frames s ! k))))))"

text \<open>
  The body of the loop of \<open>relativize\<close> for frame \<open>k\<close>, lines 317 to 329, as a function of
  the pair of atom vectors.
\<close>

definition rel_step :: "frame list \<Rightarrow> nat \<Rightarrow> atom list \<times> atom list \<Rightarrow> atom list \<times> atom list" where
  "rel_step fs k hh =
     (let f = fs ! k;
          orig = coordinate (fst hh ! rotorY f)
      in (fold (\<lambda>i h. h[i := (h ! i)\<lparr>coordinate := vsub (coordinate (h ! i)) orig\<rparr>])
               [habegin f..<haend f] (fst hh),
          fold (\<lambda>i h. h[i := (h ! i)\<lparr>coordinate := vsub (coordinate (h ! i)) orig\<rparr>])
               [hybegin f..<hyend f] (snd hh)))"

section \<open>monte\_carlo\_task\<close>

text \<open>
  The facilities of \<open><random>\<close>: seeding the engine, and one draw from a distribution
  object applied to the engine. \<^typ>\<open>'g\<close> is the state of the engine together with the
  internal state of the distribution objects; a draw returns the value and the next state.
\<close>

record 'g random =
  mt19937_64 :: "nat \<Rightarrow> 'g"
  uniform_real_distribution :: "real \<Rightarrow> real \<Rightarrow> 'g \<Rightarrow> real \<times> 'g"
  uniform_int_distribution :: "nat \<Rightarrow> nat \<Rightarrow> 'g \<Rightarrow> nat \<times> 'g"
  normal_distribution :: "real \<Rightarrow> real \<Rightarrow> 'g \<Rightarrow> real \<times> 'g"

text \<open>
  The result container is a \<open>ptr_vector<result>\<close>, read through \<open>size()\<close> and
  \<open>capacity()\<close> and written by \<open>add_to_result_container\<close>.
\<close>

record container =
  items :: "result list"
  capacity :: nat

text \<open>
  What monte\_carlo\_task is given: its arguments \<open>lig\<close>, \<open>sf\<close>, \<open>b\<close>, \<open>grid_maps\<close>, and the
  functions it calls whose definitions are not under src/: the random facilities,
  \<open>vec3_to_qtn4\<close> and \<open>add_to_result_container\<close>.
\<close>

record 'g env =
  env_lig :: ligand
  env_sf :: scoring_function
  env_b :: box
  env_maps :: grid_maps
  env_random :: "'g random"
  vec3_to_qtn4 :: "vec3 \<Rightarrow> qtn4"
  add_to_result_container :: "container \<Rightarrow> result \<Rightarrow> real \<Rightarrow> container"

text \<open>
  Modelled from the spec: \<open>num_alphas\<close> is used by monte\_carlo\_task.cpp and declared
  outside src/; the spec gives \<open>num_alphas = 5\<close> line-search attempts.
\<close>

definition num_alphas :: nat where
  "num_alphas = 5"

definition num_mc_iterations :: "ligand \<Rightarrow> nat" where
  "num_mc_iterations lig = 100 * num_heavy_atoms lig"

definition num_entities :: "ligand \<Rightarrow> nat" where
  "num_entities lig = 2 + num_active_torsions lig"

definition num_variables :: "ligand \<Rightarrow> nat" where
  "num_variables lig = 6 + num_active_torsions lig"

definition e_upper_bound :: "ligand \<Rightarrow> real" where
  "e_upper_bound lig = real (4 * num_heavy_atoms lig)"

definition required_square_error :: "ligand \<Rightarrow> real" where
  "required_square_error lig = real (1 * num_heavy_atoms lig)"

definition mc_pi :: real where
  "mc_pi = 31415926535897932 / 10000000000000000"

text \<open>
  The variables of monte\_carlo\_task that live across loop iterations. The remaining
  locals (\<open>h\<close>, \<open>p\<close>, \<open>alpha\<close>, \<open>pg1\<close>, \<open>pg2\<close>, \<open>y\<close>, \<open>mhy\<close>, ...) are assigned before each use
  and are bound by \<open>let\<close> where they are computed.
\<close>

record 'g mc_vars =
  eng :: 'g
  results :: container
  c0 :: conformation
  e0 :: real
  f0 :: real
  g0 :: change
  best_e :: real
  c1 :: conformation
  e1 :: real
  f1 :: real
  g1 :: change
  c2 :: conformation
  e2 :: real
  f2 :: real
  g2 :: change

text \<open>One call \<open>lig.evaluate(c, sf, b, grid_maps, bound, e, f, g)\<close>.\<close>

definition call_evaluate :: "'g env \<Rightarrow> conformation \<Rightarrow> real \<Rightarrow> real \<times> real \<times> change \<Rightarrow> bool \<times> real \<times> real \<times> change" where
  "call_evaluate E c bound efg = evaluate (env_lig E) c (env_sf E) (env_b E) (env_maps E) bound efg"

text \<open>Three draws in a braced initialiser list, left to right.\<close>

definition draw3 :: "('g \<Rightarrow> real \<times> 'g) \<Rightarrow> ('g \<Rightarrow> real \<times> 'g) \<Rightarrow> ('g \<Rightarrow> real \<times> 'g) \<Rightarrow> 'g \<Rightarrow> vec3 \<times> 'g" where
  "draw3 d0 d1 d2 r = (case d0 r of (x0, r0) \<Rightarrow> (case d1 r0 of (x1, r1) \<Rightarrow> (case d2 r1 of (x2, r2) \<Rightarrow>
     ((x0, x1, x2), r2))))"

definition draw4 :: "('g \<Rightarrow> real \<times> 'g) \<Rightarrow> 'g \<Rightarrow> qtn4 \<times> 'g" where
  "draw4 d r = (case d r of (x0, r0) \<Rightarrow> (case d r0 of (x1, r1) \<Rightarrow> (case d r1 of (x2, r2) \<Rightarrow>
     (case d r2 of (x3, r3) \<Rightarrow> ((x0, x1, x2, x3), r3)))))"

text \<open>The loop \<open>for (i = 0; i < num_active_torsions; ++i) c0.torsions[i] = uniform_pi_gen(eng)\<close>.\<close>

definition draw_torsions :: "('g \<Rightarrow> real \<times> 'g) \<Rightarrow> nat \<Rightarrow> real list \<times> 'g \<Rightarrow> real list \<times> 'g" where
  "draw_torsions d n tr = fold (\<lambda>i (ts, r). (case d r of (x, r') \<Rightarrow> (ts[i := x], r'))) [0..<n] tr"

text \<open>The body of the initialisation loop up to the call of evaluate: randomize \<open>c0\<close>.\<close>

definition randomize_c0 :: "'g env \<Rightarrow> 'g mc_vars \<Rightarrow> 'g mc_vars" where
  "randomize_c0 E v =
     (let R = env_random E; bx = env_b E;
          d3 = draw3 (uniform_real_distribution R (fst (corner1 bx)) (fst (corner2 bx)))
                     (uniform_real_distribution R (fst (snd (corner1 bx))) (fst (snd (corner2 bx))))
                     (uniform_real_distribution R (snd (snd (corner1 bx))) (snd (snd (corner2 bx))))
                     (eng v);
          d4 = draw4 (normal_distribution R 0 1) (snd d3);
          dt = draw_torsions (uniform_real_distribution R (- mc_pi) mc_pi)
                 (num_active_torsions (env_lig E)) (torsions (c0 v), snd d4)
      in v\<lparr>eng := snd dt,
           c0 := (c0 v)\<lparr>position := fst d3, orientation := normalize4 (fst d4), torsions := fst dt\<rparr>\<rparr>)"

text \<open>
  The body of the initialisation loop: randomize \<open>c0\<close> and evaluate it into
  \<open>valid_conformation\<close>, \<open>e0\<close>, \<open>f0\<close>, \<open>g0\<close>.
\<close>

definition init_attempt :: "'g env \<Rightarrow> 'g mc_vars \<Rightarrow> bool \<times> 'g mc_vars" where
  "init_attempt E v =
     (let v1 = randomize_c0 E v
      in case call_evaluate E (c0 v1) (e_upper_bound (env_lig E)) (e0 v1, f0 v1, g0 v1) of
           (valid, e, f, g) \<Rightarrow> (valid, v1\<lparr>e0 := e, f0 := f, g0 := g\<rparr>))"

text \<open>
  The initialisation loop \<open>for (i = 0; (i < 1000) && (!valid_conformation); ++i)\<close>, by the
  number of iterations still allowed; it returns \<open>valid_conformation\<close> and the variables.
\<close>

fun init_loop :: "'g env \<Rightarrow> nat \<Rightarrow> 'g mc_vars \<Rightarrow> bool \<times> 'g mc_vars" where
  "init_loop E 0 v = (False, v)"
| "init_loop E (Suc n) v =
     (let r = init_attempt E v
      in if fst r then (True, snd r) else init_loop E n (snd r))"

text \<open>The orientation mutation, lines 91 and 92: the product is stored as it is.\<close>

definition mutate_orientation :: "'g env \<Rightarrow> vec3 \<Rightarrow> qtn4 \<Rightarrow> qtn4" where
  "mutate_orientation E d q = qmul (vec3_to_qtn4 E (smul3 (1 / 100) d)) q"

text \<open>The body of the mutation loop up to the call of evaluate: mutate \<open>c0\<close> into \<open>c1\<close>.\<close>

definition mutate :: "'g env \<Rightarrow> 'g mc_vars \<Rightarrow> 'g mc_vars" where
  "mutate E v =
     (let R = env_random E; lig = env_lig E;
          uniform_11_gen = uniform_real_distribution R (- 1) 1;
          v1 = v\<lparr>c1 := c0 v\<rparr>
      in case uniform_int_distribution R 0 (num_entities lig - 1) (eng v1) of (mutation_entity, r1) \<Rightarrow>
         if mutation_entity < num_active_torsions lig then
           (case uniform_real_distribution R (- mc_pi) mc_pi r1 of (x, r2) \<Rightarrow>
              v1\<lparr>eng := r2, c1 := (c1 v1)\<lparr>torsions := (torsions (c1 v1))[mutation_entity := x]\<rparr>\<rparr>)
         else if mutation_entity = num_active_torsions lig then
           (case draw3 uniform_11_gen uniform_11_gen uniform_11_gen r1 of (d, r2) \<Rightarrow>
              v1\<lparr>eng := r2, c1 := (c1 v1)\<lparr>position := vadd (position (c1 v1)) d\<rparr>\<rparr>)
         else
           (case draw3 uniform_11_gen uniform_11_gen uniform_11_gen r1 of (d, r2) \<Rightarrow>
              v1\<lparr>eng := r2, c1 := (c1 v1)\<lparr>orientation :=
                 mutate_orientation E d (orientation (c1 v1))\<rparr>\<rparr>))"

text \<open>
  The mutation loop \<open>do { ... } while (!lig.evaluate(c1, ...))\<close>. Nothing bounds its number
  of iterations, so the model counts them down from a fuel: \<open>None\<close> is "still running
  when the fuel is used up".
\<close>

definition mutate_attempt :: "'g env \<Rightarrow> 'g mc_vars \<Rightarrow> bool \<times> 'g mc_vars" where
  "mutate_attempt E v =
     (let v1 = mutate E v
      in case call_evaluate E (c1 v1) (e_upper_bound (env_lig E)) (e1 v1, f1 v1, g1 v1) of
           (ok, e, f, g) \<Rightarrow> (ok, v1\<lparr>e1 := e, f1 := f, g1 := g\<rparr>))"

fun mutate_loop :: "'g env \<Rightarrow> nat \<Rightarrow> 'g mc_vars \<Rightarrow> 'g mc_vars option" where
  "mutate_loop E 0 v = None"
| "mutate_loop E (Suc n) v =
     (let r = mutate_attempt E v
      in if fst r then Some (snd r) else mutate_loop E n (snd r))"

text \<open>
  The inverse Hessian is a packed triangular matrix of \<open>n (n + 1) / 2\<close> entries, written at
  \<open>mr i j\<close> and read at \<open>mp i j\<close>. The descent direction \<open>p\<close>, a \<open>change\<close> in the source
  that is only indexed flat, is the list of its \<open>num_variables\<close> entries.
\<close>

definition identity_hessian :: "nat \<Rightarrow> real list" where
  "identity_hessian n = fold (\<lambda>i h. h[mr i i := 1]) [0..<n] (replicate (n * (n + 1) div 2) 0)"

text \<open>\<open>sum = 0; for (j = 0; j < n; ++j) sum += h[mp(i, j)] * x[j]\<close>.\<close>

definition h_row :: "nat \<Rightarrow> real list \<Rightarrow> (nat \<Rightarrow> real) \<Rightarrow> nat \<Rightarrow> real" where
  "h_row n h x i = fold (\<lambda>j sum. sum + h ! mp i j * x j) [0..<n] 0"

definition descent_direction :: "nat \<Rightarrow> real list \<Rightarrow> change \<Rightarrow> real list" where
  "descent_direction n h g = map (\<lambda>i. - h_row n h (change_nth g) i) [0..<n]"

text \<open>\<open>pg = 0; for (i = 0; i < n; ++i) pg += p[i] * g[i]\<close>.\<close>

definition p_dot_g :: "nat \<Rightarrow> real list \<Rightarrow> change \<Rightarrow> real" where
  "p_dot_g n p g = fold (\<lambda>i pg. pg + p ! i * change_nth g i) [0..<n] 0"

text \<open>The orientation of the stepped conformation, lines 132 to 134: again the plain product.\<close>

definition step_orientation :: "'g env \<Rightarrow> real \<Rightarrow> real list \<Rightarrow> qtn4 \<Rightarrow> qtn4" where
  "step_orientation E alpha p q = qmul (vec3_to_qtn4 E (smul3 alpha (p ! 3, p ! 4, p ! 5))) q"

text \<open>The step \<open>c2 = c1 + alpha * p\<close> of the line search.\<close>

definition step_c2 :: "'g env \<Rightarrow> real \<Rightarrow> real list \<Rightarrow> 'g mc_vars \<Rightarrow> conformation" where
  "step_c2 E alpha p v =
     (c2 v)\<lparr>position := vadd (position (c1 v)) (smul3 alpha (p ! 0, p ! 1, p ! 2)),
            orientation := step_orientation E alpha p (orientation (c1 v)),
            torsions := fold (\<lambda>i ts. ts[i := torsions (c1 v) ! i + alpha * p ! (6 + i)])
                          [0..<num_active_torsions (env_lig E)] (torsions (c2 v))\<rparr>"

text \<open>
  One trial of the line search with the step \<open>alpha\<close>, lines 130 to 150: whether the trial
  ends in \<open>break\<close>, and the variables (\<open>c2\<close>, \<open>e2\<close>, \<open>f2\<close>, \<open>g2\<close> are written).
\<close>

definition line_trial :: "'g env \<Rightarrow> real list \<Rightarrow> real \<Rightarrow> real \<Rightarrow> 'g mc_vars \<Rightarrow> bool \<times> 'g mc_vars" where
  "line_trial E p pg1 alpha v =
     (let v1 = v\<lparr>c2 := step_c2 E alpha p v\<rparr>
      in case call_evaluate E (c2 v1) (e1 v1 + (1 / 10000) * alpha * pg1) (e2 v1, f2 v1, g2 v1) of
           (ok, e, f, g) \<Rightarrow>
             (let v2 = v1\<lparr>e2 := e, f2 := f, g2 := g\<rparr>
              in (ok \<and> p_dot_g (num_variables (env_lig E)) p (g2 v2) \<ge> (9 / 10) * pg1, v2)))"

text \<open>
  The line search \<open>for (num_alpha_trials = 0; num_alpha_trials < num_alphas; ++num_alpha_trials)\<close>,
  by the number of trials still allowed. It returns whether the loop was left by \<open>break\<close>
  (that is, \<open>num_alpha_trials != num_alphas\<close> after the loop), \<open>alpha\<close> and the variables.
\<close>

fun line_search :: "'g env \<Rightarrow> real list \<Rightarrow> real \<Rightarrow> nat \<Rightarrow> real \<Rightarrow> 'g mc_vars \<Rightarrow> bool \<times> real \<times> 'g mc_vars" where
  "line_search E p pg1 0 alpha v = (False, alpha, v)"
| "line_search E p pg1 (Suc n) alpha v =
     (let alpha' = alpha * (1 / 10);
          r = line_trial E p pg1 alpha' v
      in if fst r then (True, alpha', snd r) else line_search E p pg1 n alpha' (snd r))"

text \<open>The update of the inverse Hessian after an accepted step.\<close>

definition update_hessian :: "nat \<Rightarrow> real list \<Rightarrow> real list \<Rightarrow> real \<Rightarrow> change \<Rightarrow> change \<Rightarrow> real list" where
  "update_hessian n h p alpha ga gb =
     (let y = (\<lambda>i. change_nth gb i - change_nth ga i);
          mhy = (\<lambda>i. - h_row n h y i);
          yhy = fold (\<lambda>i a. a - y i * mhy i) [0..<n] 0;
          yp = fold (\<lambda>i a. a + y i * p ! i) [0..<n] 0;
          ryp = 1 / yp;
          pco = ryp * (ryp * yhy + alpha)
      in fold (\<lambda>i h1. fold (\<lambda>j h2. h2[mr i j := h2 ! mr i j
                 + (ryp * (mhy i * p ! j + mhy j * p ! i) + pco * p ! i * p ! j)]) [i..<n] h1)
           [0..<n] h)"

text \<open>
  The BFGS loop \<open>while (true)\<close>, left only by the \<open>break\<close> after a failed line search; the
  fuel counts its iterations as in \<open>mutate_loop\<close>.
\<close>

fun bfgs_loop :: "'g env \<Rightarrow> nat \<Rightarrow> real list \<Rightarrow> 'g mc_vars \<Rightarrow> 'g mc_vars option" where
  "bfgs_loop E 0 h v = None"
| "bfgs_loop E (Suc n) h v =
     (let nv = num_variables (env_lig E);
          p = descent_direction nv h (g1 v);
          pg1 = p_dot_g nv p (g1 v)
      in case line_search E p pg1 num_alphas 1 v of
           (found, alpha, v1) \<Rightarrow>
             if \<not> found then Some v1
             else bfgs_loop E n (update_hessian nv h p alpha (g1 v1) (g2 v1))
                    (v1\<lparr>c1 := c2 v1, e1 := e2 v1, f1 := f2 v1, g1 := g2 v1\<rparr>))"

text \<open>The Metropolis step at the end of an iteration, lines 187 to 202.\<close>

definition metropolis :: "'g env \<Rightarrow> 'g mc_vars \<Rightarrow> 'g mc_vars" where
  "metropolis E v =
     (let delta = e0 v - e1 v;
          drawn = (if delta > 0 then (True, eng v)
                   else (case uniform_real_distribution (env_random E) 0 1 (eng v) of
                           (u, r) \<Rightarrow> (u < exp delta, r)));
          v1 = v\<lparr>eng := snd drawn\<rparr>
      in if fst drawn then
           (let v2 = (if e1 v1 < best_e v1 \<or> length (items (results v1)) < capacity (results v1) then
                        (let v' = v1\<lparr>results := add_to_result_container E (results v1)
                                       (compose_result (env_lig E) (e1 v1) (f1 v1) (c1 v1))
                                       (required_square_error (env_lig E))\<rparr>
                         in if e1 v' < best_e v' then v'\<lparr>best_e := e0 v'\<rparr> else v')
                      else v1)
            in v2\<lparr>c0 := c1 v2, e0 := e1 v2\<rparr>)
         else v1)"

text \<open>The main loop \<open>for (mc_i = 0; mc_i < num_mc_iterations; ++mc_i)\<close>, by the iterations left.\<close>

fun mc_loop :: "'g env \<Rightarrow> nat \<Rightarrow> nat \<Rightarrow> 'g mc_vars \<Rightarrow> 'g mc_vars option" where
  "mc_loop E fuel 0 v = Some v"
| "mc_loop E fuel (Suc n) v =
     (case mutate_loop E fuel v of
        None \<Rightarrow> None
      | Some v1 \<Rightarrow>
          (case bfgs_loop E fuel (identity_hessian (num_variables (env_lig E))) v1 of
             None \<Rightarrow> None
           | Some v2 \<Rightarrow> mc_loop E fuel n (metropolis E v2)))"

text \<open>
  The variables after \<open>k\<close> iterations of the initialisation loop (each of them rejected,
  or the loop would have stopped).
\<close>

definition init_vars :: "'g env \<Rightarrow> nat \<Rightarrow> 'g mc_vars \<Rightarrow> 'g mc_vars" where
  "init_vars E k v = ((\<lambda>u. snd (init_attempt E u)) ^^ k) v"

text \<open>
  \<open>monte_carlo_task(results, lig, seed, sf, b, grid_maps)\<close>: \<open>locals\<close> holds what the local
  variables contain when they are declared (several are uninitialised), \<open>fuel\<close> bounds the
  iterations of each unbounded loop, and the value is the result container at the return.
\<close>

definition task_start :: "'g env \<Rightarrow> 'g mc_vars \<Rightarrow> container \<Rightarrow> nat \<Rightarrow> 'g mc_vars" where
  "task_start E locals res seed = locals\<lparr>eng := mt19937_64 (env_random E) seed, results := res\<rparr>"

definition monte_carlo_task :: "'g env \<Rightarrow> nat \<Rightarrow> 'g mc_vars \<Rightarrow> container \<Rightarrow> nat \<Rightarrow> container option" where
  "monte_carlo_task E fuel locals res seed =
     (let v = task_start E locals res seed
      in case init_loop E 1000 v of
           (valid_conformation, v1) \<Rightarrow>
             if \<not> valid_conformation then Some (results v1)
             else map_option results
                    (mc_loop E fuel (num_mc_iterations (env_lig E)) (v1\<lparr>best_e := e0 v1\<rparr>)))"

text \<open>
  The variables when trial number \<open>k\<close> (counted from 0) of a line search begins, after \<open>k\<close>
  trials that did not end in \<open>break\<close>; \<open>a\<close> is the value of \<open>alpha\<close> before the loop.
\<close>

primrec trial_vars :: "'g env \<Rightarrow> real list \<Rightarrow> real \<Rightarrow> real \<Rightarrow> nat \<Rightarrow> 'g mc_vars \<Rightarrow> 'g mc_vars" where
  "trial_vars E p pg1 a 0 v = v"
| "trial_vars E p pg1 a (Suc k) v =
     snd (line_trial E p pg1 (a * (1 / 10) ^ Suc k) (trial_vars E p pg1 a k v))"

text \<open>
  Two runs of monte\_carlo\_task differ in what their local variables hold when they are
  declared. \<open>same_constructed\<close> is what the constructors \<open>conformation(n)\<close> and \<open>change(n)\<close>
  settle of it and the code relies on: the torsion vectors of \<open>c0\<close>, \<open>c2\<close>, \<open>g1\<close> and \<open>g2\<close>,
  which are written element by element. Everything else (the doubles \<open>e0\<close>, \<open>f0\<close>, \<open>e1\<close>,
  \<open>f1\<close>, \<open>e2\<close>, \<open>f2\<close>, the positions and orientations, \<open>c1\<close>, \<open>g0\<close>) may differ. The three
  relations that follow say which variables of two runs agree while the initialisation loop
  runs, at the head of an iteration of the main loop, and from the end of the mutation loop
  to the Metropolis step.
\<close>

definition same_constructed :: "'g mc_vars \<Rightarrow> 'g mc_vars \<Rightarrow> bool" where
  "same_constructed v w =
     (torsions (c0 v) = torsions (c0 w) \<and> torsions (c2 v) = torsions (c2 w)
      \<and> g_torsions (g1 v) = g_torsions (g1 w) \<and> g_torsions (g2 v) = g_torsions (g2 w))"

definition init_alike :: "'g mc_vars \<Rightarrow> 'g mc_vars \<Rightarrow> bool" where
  "init_alike v w = (eng v = eng w \<and> results v = results w \<and> same_constructed v w)"

definition iter_alike :: "'g mc_vars \<Rightarrow> 'g mc_vars \<Rightarrow> bool" where
  "iter_alike v w = (init_alike v w \<and> c0 v = c0 w \<and> e0 v = e0 w \<and> best_e v = best_e w)"

definition bfgs_alike :: "'g mc_vars \<Rightarrow> 'g mc_vars \<Rightarrow> bool" where
  "bfgs_alike v w = (iter_alike v w \<and> c1 v = c1 w \<and> e1 v = e1 w \<and> f1 v = f1 w \<and> g1 v = g1 w)"

section \<open>Example inputs\<close>

text \<open>
  A ligand of one frame with one heavy atom at the frame origin, a box of side 10 with unit
  grid, a conformation inside it, and a scoring function that is zero.
\<close>

definition ex_atom :: "vec3 \<Rightarrow> atom" where
  "ex_atom c = \<lparr>coordinate = c, ad = 0, xs = 0\<rparr>"

definition ex_root1 :: frame where
  "ex_root1 = \<lparr>parent = 0, rotorX = 0, rotorY = 0, habegin = 0, haend = 1, hybegin = 0, hyend = 0,
     active = True, yy = (0, 0, 0), xy = (0, 0, 0)\<rparr>"

definition ex_lig1 :: ligand where
  "ex_lig1 = \<lparr>frames = [ex_root1], heavy_atoms = [ex_atom (0, 0, 0)], hydrogens = [],
     interacting_pairs = [], num_active_torsions = 0\<rparr>"

definition ex_box :: box where
  "ex_box = \<lparr>corner1 = (0, 0, 0), corner2 = (10, 10, 10), grid_granularity = 1, grid_granularity_inverse = 1\<rparr>"

definition ex_conf0 :: conformation where
  "ex_conf0 = \<lparr>position = (1, 1, 1), orientation = (1, 0, 0, 0), torsions = []\<rparr>"

definition ex_sf :: scoring_function where
  "ex_sf = \<lparr>sf_evaluate = (\<lambda>t r2. (0, 0)), Cutoff_Sqr = 64\<rparr>"

definition ex_g0 :: change where
  "ex_g0 = \<lparr>g_position = (0, 0, 0), g_orientation = (0, 0, 0), g_torsions = []\<rparr>"

text \<open>
  An environment for the one-atom ligand: every grid map is the constant \<open>c\<close>, the engine
  state is a counter, a uniform real draw returns the lower bound of its range, a uniform
  integer draw the upper bound, a normal draw the mean plus the deviation; \<open>vec3_to_qtn4\<close>
  turns a rotation vector into the axis-angle quaternion of array.cpp, and the container
  takes every result offered.
\<close>

definition ex_random :: "nat random" where
  "ex_random = \<lparr>mt19937_64 = (\<lambda>seed. seed),
     uniform_real_distribution = (\<lambda>a b r. (a, r + 1)),
     uniform_int_distribution = (\<lambda>a b r. (b, r + 1)),
     normal_distribution = (\<lambda>m s r. (m + s, r + 1))\<rparr>"

definition ex_vec3_to_qtn4 :: "vec3 \<Rightarrow> qtn4" where
  "ex_vec3_to_qtn4 v = vec4_to_qtn4 (normalize3 v) (norm3 v)"

definition ex_env :: "real \<Rightarrow> nat env" where
  "ex_env c = \<lparr>env_lig = ex_lig1, env_sf = ex_sf, env_b = ex_box, env_maps = (\<lambda>t x y z. c),
     env_random = ex_random, vec3_to_qtn4 = ex_vec3_to_qtn4,
     add_to_result_container = (\<lambda>C r e. C\<lparr>items := r # items C\<rparr>)\<rparr>"

definition ex_vars :: "nat mc_vars" where
  "ex_vars = \<lparr>eng = 0, results = \<lparr>items = [], capacity = 9\<rparr>,
     c0 = ex_conf0, e0 = 0, f0 = 0, g0 = ex_g0, best_e = 0,
     c1 = ex_conf0, e1 = 0, f1 = 0, g1 = ex_g0,
     c2 = ex_conf0, e2 = 0, f2 = 0, g2 = ex_g0\<rparr>"

text \<open>
  A ligand of three frames: the root with two heavy atoms, an active branch with two, and
  an inactive branch (a child of the active one) with one heavy atom at its origin.
\<close>

definition ex_frames3 :: "frame list" where
  "ex_frames3 =
     [\<lparr>parent = 0, rotorX = 0, rotorY = 0, habegin = 0, haend = 2, hybegin = 0, hyend = 0,
       active = True, yy = (0, 0, 0), xy = (0, 0, 0)\<rparr>,
      \<lparr>parent = 0, rotorX = 1, rotorY = 2, habegin = 2, haend = 4, hybegin = 0, hyend = 0,
       active = True, yy = (2, 0, 0), xy = (1, 0, 0)\<rparr>,
      \<lparr>parent = 1, rotorX = 3, rotorY = 4, habegin = 4, haend = 5, hybegin = 0, hyend = 0,
       active = False, yy = (0, 2, 0), xy = (0, 1, 0)\<rparr>]"

definition ex_lig3 :: ligand where
  "ex_lig3 = \<lparr>frames = ex_frames3,
     heavy_atoms = [ex_atom (0, 0, 0), ex_atom (1, 0, 0), ex_atom (0, 0, 0), ex_atom (0, 1, 0), ex_atom (0, 0, 0)],
     hydrogens = [], interacting_pairs = [], num_active_torsions = 1\<rparr>"

definition ex_conf3 :: "vec3 \<Rightarrow> conformation" where
  "ex_conf3 pos = \<lparr>position = pos, orientation = (1, 0, 0, 0), torsions = [0]\<rparr>"

text \<open>
  Atom operations for the parsing examples: the types \<open>C\<close> (0) and \<open>HD\<close> (1) are supported,
  every other type string is not; no atom is a hetero atom; two atoms are neighbors when
  they are less than 2 apart.
\<close>

definition ex_ops :: atom_ops where
  "ex_ops = \<lparr>parse_ad_type_string = (\<lambda>s. if s = ''C'' then 0 else if s = ''HD'' then 1 else 2),
     AD_TYPE_SIZE = 2, AD_TYPE_HD = 1, ad_to_xs = (\<lambda>t. t),
     is_hydrogen = (\<lambda>a. ad a = 1), is_hetero = (\<lambda>a. False),
     is_neighbor = (\<lambda>a b. norm_sqr3 (vsub (coordinate a) (coordinate b)) < 4),
     donorize = (\<lambda>a. a), dehydrophobicize = (\<lambda>a. a)\<rparr>"

text \<open>
  A ligand of two frames: two atoms in the root, three in the branch, one unit apart on a
  line, so that each is a neighbor of the next only. \<open>ex_parsed5\<close> is what the parser makes
  of the lines and \<open>ex_lig5\<close> the ligand the constructor returns.
\<close>

definition ex_lines5 :: "line list" where
  "ex_lines5 = [KEPT, ATOM 11 ''C'' (0, 0, 0), ATOM 12 ''C'' (1, 0, 0), KEPT, BRANCH 12 13,
     ATOM 13 ''C'' (2, 0, 0), ATOM 14 ''C'' (3, 0, 0), ATOM 15 ''C'' (4, 0, 0), ENDBRANCH 12 13, KEPT]"

definition ex_atoms5 :: "atom list" where
  "ex_atoms5 = [\<lparr>coordinate = (0, 0, 0), ad = 0, xs = 0\<rparr>, \<lparr>coordinate = (1, 0, 0), ad = 0, xs = 0\<rparr>,
     \<lparr>coordinate = (2, 0, 0), ad = 0, xs = 0\<rparr>, \<lparr>coordinate = (3, 0, 0), ad = 0, xs = 0\<rparr>,
     \<lparr>coordinate = (4, 0, 0), ad = 0, xs = 0\<rparr>]"

definition ex_parsed5 :: parser where
  "ex_parsed5 = \<lparr>p_frames = [\<lparr>parent = 0, rotorX = 0, rotorY = 0, habegin = 0, haend = 2,
                      hybegin = 0, hyend = 0, active = True, yy = (0, 0, 0), xy = (0, 0, 0)\<rparr>,
                    \<lparr>parent = 0, rotorX = 1, rotorY = 2, habegin = 2, haend = 5,
                      hybegin = 0, hyend = 0, active = True, yy = (0, 0, 0), xy = (0, 0, 0)\<rparr>],
     p_heavy_atoms = ex_atoms5, p_hydrogens = [], numbers = [11, 12, 13, 14, 15],
     current = 0, p_num_active_torsions = 1, num_lines = 10\<rparr>"

definition ex_lig5 :: ligand where
  "ex_lig5 = projr (ligand_ctor ex_ops ex_lines5)"

text \<open>
  A container of capacity 2, the result the one-atom ligand composes at the lower corner
  of the box with energy 1, and local variables that differ from \<open>ex_vars\<close> in everything
  but the torsion vectors.
\<close>

definition ex_res2 :: container where
  "ex_res2 = \<lparr>items = [], capacity = 2\<rparr>"

definition ex_result1 :: result where
  "ex_result1 = \<lparr>r_e = 1, r_f = 1, r_heavy_atoms = [(0, 0, 0)], r_hydrogens = []\<rparr>"

definition ex_vars_other :: "nat mc_vars" where
  "ex_vars_other = \<lparr>eng = 5, results = \<lparr>items = [ex_result1], capacity = 1\<rparr>,
     c0 = ex_conf0\<lparr>position := (9, 9, 9)\<rparr>, e0 = 3, f0 = 4, g0 = ex_g0\<lparr>g_torsions := [8]\<rparr>, best_e = - 1,
     c1 = ex_conf0\<lparr>torsions := [2, 2]\<rparr>, e1 = - 7, f1 = 6, g1 = ex_g0\<lparr>g_position := (1, 2, 3)\<rparr>,
     c2 = ex_conf0\<lparr>orientation := (0, 0, 0, 0)\<rparr>, e2 = 11, f2 = 12, g2 = ex_g0\<lparr>g_orientation := (4, 5, 6)\<rparr>\<rparr>"

text \<open>
  Random facilities whose uniform real draw returns the upper bound of its range while the
  engine state is below 14 and the lower bound from then on, so that with seed 0 the first
  two random conformations lie outside the box and the third lies inside.
\<close>

definition ex_random2 :: "nat random" where
  "ex_random2 = \<lparr>mt19937_64 = (\<lambda>seed. seed),
     uniform_real_distribution = (\<lambda>a b r. (if r < 14 then b else a, r + 1)),
     uniform_int_distribution = (\<lambda>a b r. (b, r + 1)),
     normal_distribution = (\<lambda>m s r. (m + s, r + 1))\<rparr>"

definition ex_env2 :: "nat env" where
  "ex_env2 = (ex_env 1)\<lparr>env_random := ex_random2\<rparr>"

text \<open>
  The lines of a ligand of three frames, what the parser makes of them, and the ligand the
  constructor returns: \<open>ex_lig3\<close> with the one interacting pair of its atoms 0 and 4.
\<close>

definition ex_lines3 :: "line list" where
  "ex_lines3 = [KEPT, ATOM 11 ''C'' (0, 0, 0), ATOM 12 ''C'' (1, 0, 0), KEPT, BRANCH 12 13,
     ATOM 13 ''C'' (2, 0, 0), ATOM 14 ''C'' (2, 1, 0), BRANCH 14 15, ATOM 15 ''C'' (2, 2, 0),
     ENDBRANCH 14 15, ENDBRANCH 12 13, KEPT]"

definition ex_parsed3 :: parser where
  "ex_parsed3 = \<lparr>p_frames = [\<lparr>parent = 0, rotorX = 0, rotorY = 0, habegin = 0, haend = 2,
                      hybegin = 0, hyend = 0, active = True, yy = (0, 0, 0), xy = (0, 0, 0)\<rparr>,
                    \<lparr>parent = 0, rotorX = 1, rotorY = 2, habegin = 2, haend = 4,
                      hybegin = 0, hyend = 0, active = True, yy = (0, 0, 0), xy = (0, 0, 0)\<rparr>,
                    \<lparr>parent = 1, rotorX = 3, rotorY = 4, habegin = 4, haend = 5,
                      hybegin = 0, hyend = 0, active = False, yy = (0, 0, 0), xy = (0, 0, 0)\<rparr>],
     p_heavy_atoms = [ex_atom (0, 0, 0), ex_atom (1, 0, 0), ex_atom (2, 0, 0), ex_atom (2, 1, 0), ex_atom (2, 2, 0)],
     p_hydrogens = [], numbers = [11, 12, 13, 14, 15],
     current = 0, p_num_active_torsions = 1, num_lines = 12\<rparr>"

definition ex_lig3c :: ligand where
  "ex_lig3c = ex_lig3\<lparr>interacting_pairs := [\<lparr>i1 = 0, i2 = 4, type_pair_index = 0\<rparr>]\<rparr>"

section \<open>Properties\<close>

subsection \<open>The Metropolis step\<close>

text \<open>
  C1. On an accepted candidate with \<open>e1 < best_e\<close> the result composed from
  \<open>(e1, f1, c1)\<close> is offered to the container and \<open>c0\<close>, \<open>e0\<close> become \<open>c1\<close>, \<open>e1\<close>; but
  \<open>best_e\<close> is assigned the old \<open>e0\<close>, not \<open>min best_e e1\<close>. With \<open>e0 = 5\<close>, \<open>e1 = 3\<close>
  and \<open>best_e = 5\<close> the candidate is accepted (\<open>delta = 2 > 0\<close>) and \<open>best_e\<close> stays \<open>5\<close>,
  where the minimum is \<open>3\<close>; the source's comment calls \<open>best_e\<close> "the best energy of all the
  conformations in the container".
\<close>

theorem metropolis_best_e_is_old_e0:
  "best_e (metropolis E (v\<lparr>e0 := 5, e1 := 3, best_e := 5\<rparr>)) = 5
   \<and> min (best_e (v\<lparr>e0 := 5, e1 := 3, best_e := 5\<rparr>)) (e1 (v\<lparr>e0 := 5, e1 := 3, best_e := 5\<rparr>)) = 3
   \<and> e0 (metropolis E (v\<lparr>e0 := 5, e1 := 3, best_e := 5\<rparr>)) = 3
   \<and> c0 (metropolis E (v\<lparr>e0 := 5, e1 := 3, best_e := 5\<rparr>)) = c1 v
   \<and> results (metropolis E (v\<lparr>e0 := 5, e1 := 3, best_e := 5\<rparr>)) =
       add_to_result_container E (results v) (compose_result (env_lig E) 3 (f1 v) (c1 v))
         (required_square_error (env_lig E))"
  by (simp add: metropolis_def Let_def)

subsection \<open>The evaluator on the example inputs\<close>

lemma ex_kin1: "eval_kinematics ex_lig1 ex_conf0 ex_box =
   Some \<lparr>origin = [(1,1,1)], orientation_q = [(1,0,0,0)], orientation_m = [Mat3 1 0 0 0 1 0 0 0 1],
     axis = [(0,0,0)], coordinates = [(1,1,1)]\<rparr>"
  by (simp add: eval_kinematics_def eval_init_def ex_lig1_def ex_conf0_def ex_box_def box_within_def
      ex_root1_def ex_atom_def num_frames_def num_heavy_atoms_def zero3_def Let_def)

lemma ex_energy1: "eval_energy ex_lig1 ex_sf ex_box (\<lambda>t x y z. c) [(1,1,1)] = (c, c, [(0,0,0)])"
  by (simp add: eval_energy_def num_heavy_atoms_def ex_lig1_def inter_step_def grid_index_def ex_box_def)

subsection \<open>What a rejecting call of evaluate leaves in its outputs\<close>

text \<open>
  C10. When \<open>ligand::evaluate\<close> returns false, the gradient argument \<open>g\<close> holds what it held
  before the call. (The witness is a rejection by the energy bound, where \<open>e\<close> and \<open>f\<close> have
  been overwritten: they were \<open>0\<close> and are \<open>7\<close>.)
\<close>

theorem evaluate_false_keeps_g:
  "\<not> fst (evaluate lig conf sf b maps bound (e, f, g)) \<Longrightarrow>
   snd (snd (snd (evaluate lig conf sf b maps bound (e, f, g)))) = g"
  by (simp add: evaluate_def Let_def split: option.splits if_splits)

theorem evaluate_false_keeps_g_witness:
  "evaluate ex_lig1 ex_conf0 ex_sf ex_box (\<lambda>t x y z. 7) 4 (0, 0, ex_g0) = (False, 7, 7, ex_g0)"
  using evaluate_false_keeps_g [of ex_lig1 ex_conf0 ex_sf ex_box "\<lambda>t x y z. 7" 4 0 0 ex_g0]
  by (simp add: evaluate_def ex_kin1 ex_energy1)

subsection \<open>The initialisation loop\<close>

lemma init_vars_0: "init_vars E 0 v = v"
  by (simp add: init_vars_def)

lemma init_vars_Suc: "init_vars E (Suc k) v = init_vars E k (snd (init_attempt E v))"
  by (simp add: init_vars_def funpow_Suc_right del: funpow.simps)

lemma init_loop_all_rejected:
  "(\<forall>k<n. \<not> fst (init_attempt E (init_vars E k v))) \<Longrightarrow> init_loop E n v = (False, init_vars E n v)"
proof (induction n arbitrary: v)
  case 0
  show ?case by (simp add: init_vars_0)
next
  case (Suc n)
  from Suc.prems have r0: "\<not> fst (init_attempt E v)"
    using init_vars_0 [of E v] by (metis zero_less_Suc)
  have "\<forall>k<n. \<not> fst (init_attempt E (init_vars E k (snd (init_attempt E v))))"
    using Suc.prems by (metis Suc_less_eq init_vars_Suc)
  from Suc.IH [OF this] r0 show ?case
    by (simp add: init_vars_Suc Let_def)
qed

lemma init_loop_first_accepted:
  "k < n \<Longrightarrow> (\<forall>j<k. \<not> fst (init_attempt E (init_vars E j v))) \<Longrightarrow>
   fst (init_attempt E (init_vars E k v)) \<Longrightarrow>
   init_loop E n v = (True, snd (init_attempt E (init_vars E k v)))"
proof (induction n arbitrary: v k)
  case 0
  then show ?case by simp
next
  case (Suc n)
  show ?case
  proof (cases k)
    case 0
    with Suc.prems show ?thesis
      by (simp add: init_vars_0 Let_def)
  next
    case (Suc k')
    from Suc.prems(2) Suc have r0: "\<not> fst (init_attempt E v)"
      using init_vars_0 [of E v] by (metis zero_less_Suc)
    have a: "\<forall>j<k'. \<not> fst (init_attempt E (init_vars E j (snd (init_attempt E v))))"
      using Suc.prems(2) Suc by (metis Suc_less_eq init_vars_Suc)
    have b: "fst (init_attempt E (init_vars E k' (snd (init_attempt E v))))"
      using Suc.prems(3) Suc by (simp add: init_vars_Suc)
    have c: "k' < n" using Suc.prems(1) Suc by simp
    from Suc.IH [OF c a b] r0 show ?thesis
      by (simp add: Suc init_vars_Suc Let_def)
  qed
qed

lemma results_randomize_c0: "results (randomize_c0 E v) = results v"
  by (simp add: randomize_c0_def Let_def)

lemma results_init_attempt: "results (snd (init_attempt E v)) = results v"
  by (simp add: init_attempt_def Let_def results_randomize_c0 case_prod_beta)

lemma results_init_vars: "results (init_vars E k v) = results v"
  by (induction k arbitrary: v) (simp_all add: init_vars_0 init_vars_Suc results_init_attempt)


lemma mat_vec_zero: "mat_vec m (0, 0, 0) = (0, 0, 0)"
  by (cases m) simp

lemma vadd_zero: "vadd a (0, 0, 0) = a"
  by (cases a) simp

lemma ex_kin1_any:
  "box_within ex_box (position c) \<Longrightarrow>
   \<exists>s. eval_kinematics ex_lig1 c ex_box = Some s \<and> coordinates s = [position c]"
  by (simp add: eval_kinematics_def eval_init_def ex_lig1_def ex_root1_def ex_atom_def
      num_frames_def num_heavy_atoms_def zero3_def Let_def mat_vec_zero vadd_zero)

lemma ex_energy1_any: "eval_energy ex_lig1 ex_sf ex_box (\<lambda>t x y z. c) cs = (c, c, [(0,0,0)])"
  by (simp add: eval_energy_def num_heavy_atoms_def ex_lig1_def inter_step_def ex_box_def zero3_def
      split: prod.splits)

lemma ex_evaluate1:
  "box_within ex_box (position c) \<Longrightarrow>
   fst (evaluate ex_lig1 c ex_sf ex_box (\<lambda>t x y z. k) bound efg) = (k < bound)"
  using ex_kin1_any [of c] by (auto simp: evaluate_def ex_energy1_any Let_def split: if_splits)

lemma ex_randomize_position: "position (c0 (randomize_c0 (ex_env k) v)) = (0, 0, 0)"
  by (simp add: randomize_c0_def ex_env_def ex_random_def ex_box_def draw3_def Let_def)

lemma fst_init_attempt:
  "fst (init_attempt E v)
     = fst (call_evaluate E (c0 (randomize_c0 E v)) (e_upper_bound (env_lig E)) (e0 v, f0 v, g0 v))"
  by (simp add: init_attempt_def Let_def randomize_c0_def case_prod_beta)

lemma ex_call_evaluate:
  "call_evaluate (ex_env k) c bound efg = evaluate ex_lig1 c ex_sf ex_box (\<lambda>t x y z. k) bound efg"
  by (simp add: call_evaluate_def ex_env_def)

lemma ex_e_upper_bound: "e_upper_bound (env_lig (ex_env k)) = 4"
  by (simp add: e_upper_bound_def ex_env_def num_heavy_atoms_def ex_lig1_def)

lemma ex_init_attempt: "fst (init_attempt (ex_env k) v) = (k < 4)"
proof -
  have "box_within ex_box (position (c0 (randomize_c0 (ex_env k) v)))"
    by (simp add: ex_randomize_position box_within_def ex_box_def)
  from ex_evaluate1 [OF this] show ?thesis
    by (simp only: fst_init_attempt ex_call_evaluate ex_e_upper_bound)
qed

lemma length_draw_torsions: "length (fst (draw_torsions d n (ts, r))) = length ts"
  by (induction n) (simp_all add: draw_torsions_def case_prod_beta)

lemma draw_torsions_nth:
  "i < n \<Longrightarrow> i < length ts \<Longrightarrow> \<exists>r'. fst (draw_torsions d n (ts, r)) ! i = fst (d r')"
proof (induction n)
  case 0
  then show ?case by simp
next
  case (Suc n)
  obtain ts' r' where tr: "draw_torsions d n (ts, r) = (ts', r')"
    by (cases "draw_torsions d n (ts, r)")
  have len: "length ts' = length ts"
    using length_draw_torsions [of d n ts r] tr by simp
  have step: "draw_torsions d (Suc n) (ts, r) = (ts'[n := fst (d r')], snd (d r'))"
    using tr by (simp add: draw_torsions_def case_prod_beta)
  show ?case
  proof (cases "i = n")
    case True
    with Suc.prems len show ?thesis by (auto simp: step)
  next
    case False
    with Suc.prems have "i < n" by simp
    from Suc.IH [OF this Suc.prems(2)] tr False show ?thesis by (simp add: step)
  qed
qed

subsection \<open>The line search of the BFGS loop\<close>

lemma trial_vars_shift:
  "trial_vars E p pg1 a (Suc k) v
     = trial_vars E p pg1 (a * (1 / 10)) k (snd (line_trial E p pg1 (a * (1 / 10)) v))"
  by (induction k) (simp_all add: mult.assoc)

lemma line_search_none:
  "(\<forall>k<n. \<not> fst (line_trial E p pg1 (a * (1 / 10) ^ Suc k) (trial_vars E p pg1 a k v))) \<Longrightarrow>
   line_search E p pg1 n a v = (False, a * (1 / 10) ^ n, trial_vars E p pg1 a n v)"
proof (induction n arbitrary: a v)
  case 0
  show ?case by simp
next
  case (Suc n)
  from Suc.prems [rule_format, of 0] have r0: "\<not> fst (line_trial E p pg1 (a * (1 / 10)) v)"
    by simp
  have "\<forall>k<n. \<not> fst (line_trial E p pg1 (a * (1 / 10) * (1 / 10) ^ Suc k)
           (trial_vars E p pg1 (a * (1 / 10)) k (snd (line_trial E p pg1 (a * (1 / 10)) v))))"
  proof (intro allI impI)
    fix k assume "k < n"
    then have "Suc k < Suc n" by simp
    from Suc.prems [rule_format, OF this] show "\<not> fst (line_trial E p pg1 (a * (1 / 10) * (1 / 10) ^ Suc k)
           (trial_vars E p pg1 (a * (1 / 10)) k (snd (line_trial E p pg1 (a * (1 / 10)) v))))"
      by (simp only: trial_vars_shift [symmetric]) (simp add: mult.assoc)
  qed
  note IH = Suc.IH [OF this]
  have eq1: "line_search E p pg1 (Suc n) a v
      = line_search E p pg1 n (a * (1 / 10)) (snd (line_trial E p pg1 (a * (1 / 10)) v))"
    using r0 by (simp add: Let_def)
  have eq2: "a * (1 / 10) * (1 / 10) ^ n = a * (1 / 10) ^ Suc n"
    by simp
  show ?case
    by (simp only: eq1 IH trial_vars_shift eq2)
qed

lemma line_search_first:
  "k < n \<Longrightarrow>
   (\<forall>j<k. \<not> fst (line_trial E p pg1 (a * (1 / 10) ^ Suc j) (trial_vars E p pg1 a j v))) \<Longrightarrow>
   fst (line_trial E p pg1 (a * (1 / 10) ^ Suc k) (trial_vars E p pg1 a k v)) \<Longrightarrow>
   line_search E p pg1 n a v
     = (True, a * (1 / 10) ^ Suc k, snd (line_trial E p pg1 (a * (1 / 10) ^ Suc k) (trial_vars E p pg1 a k v)))"
proof (induction n arbitrary: a v k)
  case 0
  then show ?case by simp
next
  case (Suc n)
  show ?case
  proof (cases k)
    case 0
    with Suc.prems(3) show ?thesis by (simp add: Let_def)
  next
    case (Suc k')
    from Suc.prems(2) [rule_format, of 0] Suc have r0: "\<not> fst (line_trial E p pg1 (a * (1 / 10)) v)"
      by simp
    have c: "k' < n" using Suc.prems(1) Suc by simp
    have a: "\<forall>j<k'. \<not> fst (line_trial E p pg1 (a * (1 / 10) * (1 / 10) ^ Suc j)
           (trial_vars E p pg1 (a * (1 / 10)) j (snd (line_trial E p pg1 (a * (1 / 10)) v))))"
    proof (intro allI impI)
      fix j assume "j < k'"
      then have "Suc j < k" using Suc by simp
      from Suc.prems(2) [rule_format, OF this] show "\<not> fst (line_trial E p pg1 (a * (1 / 10) * (1 / 10) ^ Suc j)
           (trial_vars E p pg1 (a * (1 / 10)) j (snd (line_trial E p pg1 (a * (1 / 10)) v))))"
        by (simp only: trial_vars_shift [symmetric]) (simp add: mult.assoc)
    qed
    have b: "fst (line_trial E p pg1 (a * (1 / 10) * (1 / 10) ^ Suc k')
           (trial_vars E p pg1 (a * (1 / 10)) k' (snd (line_trial E p pg1 (a * (1 / 10)) v))))"
      using Suc.prems(3) unfolding Suc
      by (simp only: trial_vars_shift [symmetric]) (simp add: mult.assoc)
    note IH = Suc.IH [OF c a b]
    have eq1: "line_search E p pg1 (Suc n) a v
        = line_search E p pg1 n (a * (1 / 10)) (snd (line_trial E p pg1 (a * (1 / 10)) v))"
      using r0 by (simp add: Let_def)
    have eq2: "a * (1 / 10) * (1 / 10) ^ Suc k' = a * (1 / 10) ^ Suc (Suc k')"
      by simp
    show ?thesis
      unfolding Suc by (simp only: eq1 IH trial_vars_shift eq2)
  qed
qed


lemma cross_product_zero: "cross_product a (0, 0, 0) = (0, 0, 0)"
  by (cases a) simp

lemma ex_gradient1:
  "eval_gradient ex_lig1 s [(0, 0, 0)] g = g\<lparr>g_position := (0, 0, 0), g_orientation := (0, 0, 0)\<rparr>"
  by (simp add: eval_gradient_def num_frames_def ex_lig1_def ex_root1_def frame_force_def zero3_def
      cross_product_zero Let_def)

lemma ex_evaluate1_accepts:
  "box_within ex_box (position c) \<Longrightarrow> k < bound \<Longrightarrow>
   evaluate ex_lig1 c ex_sf ex_box (\<lambda>t x y z. k) bound (e, f, g)
     = (True, k, k, g\<lparr>g_position := (0, 0, 0), g_orientation := (0, 0, 0)\<rparr>)"
  using ex_kin1_any [of c] by (auto simp: evaluate_def ex_energy1_any Let_def ex_gradient1)

lemma ex_evaluate1_rejects:
  "bound \<le> k \<Longrightarrow> \<not> fst (evaluate ex_lig1 c ex_sf ex_box (\<lambda>t x y z. k) bound efg)"
  by (simp add: evaluate_def ex_energy1_any Let_def split: option.splits)

lemma p_dot_g_zero: "(\<forall>i<n. change_nth g i = 0) \<Longrightarrow> p_dot_g n p g = 0"
  by (induction n) (simp_all add: p_dot_g_def)

lemma change_nth_zero:
  "i < 6 \<Longrightarrow> change_nth (g\<lparr>g_position := (0, 0, 0), g_orientation := (0, 0, 0)\<rparr>) i = 0"
  by (simp add: change_nth_def)

lemma fst_line_trial:
  "fst (line_trial E p pg1 a v)
     = (fst (call_evaluate E (step_c2 E a p v) (e1 v + (1 / 10000) * a * pg1) (e2 v, f2 v, g2 v))
        \<and> p_dot_g (num_variables (env_lig E)) p
             (snd (snd (snd (call_evaluate E (step_c2 E a p v) (e1 v + (1 / 10000) * a * pg1) (e2 v, f2 v, g2 v)))))
            \<ge> (9 / 10) * pg1)"
  by (simp add: line_trial_def Let_def case_prod_beta)

lemma e1_line_trial: "e1 (snd (line_trial E p pg1 a v)) = e1 v"
  by (simp add: line_trial_def Let_def case_prod_beta)

lemma e1_trial_vars: "e1 (trial_vars E p pg1 a k v) = e1 v"
  by (induction k) (simp_all add: e1_line_trial)

lemma ex_trial_rejected:
  "e1 u + (1 / 10000) * a * pg1 \<le> k \<Longrightarrow> \<not> fst (line_trial (ex_env k) p pg1 a u)"
  by (simp add: fst_line_trial ex_call_evaluate ex_evaluate1_rejects)

lemma ex_num_variables: "num_variables (env_lig (ex_env k)) = 6"
  by (simp add: num_variables_def ex_env_def ex_lig1_def)

lemma ex_first_trial:
  "line_trial (ex_env 0) [1, 0, 0, 1, 0, 0] (- 2) (1 / 10) (ex_vars\<lparr>e1 := 1\<rparr>)
     = (True, ex_vars\<lparr>e1 := 1, c2 := step_c2 (ex_env 0) (1 / 10) [1, 0, 0, 1, 0, 0] (ex_vars\<lparr>e1 := 1\<rparr>),
                e2 := 0, f2 := 0, g2 := ex_g0\<rparr>)"
proof -
  have pos: "position (step_c2 (ex_env 0) (1 / 10) [1, 0, 0, 1, 0, 0] (ex_vars\<lparr>e1 := 1\<rparr>)) = (11 / 10, 1, 1)"
    by (simp add: step_c2_def ex_vars_def ex_conf0_def)
  have w: "box_within ex_box (position (step_c2 (ex_env 0) (1 / 10) [1, 0, 0, 1, 0, 0] (ex_vars\<lparr>e1 := 1\<rparr>)))"
    unfolding pos by (simp add: box_within_def ex_box_def)
  have ev: "call_evaluate (ex_env 0) (step_c2 (ex_env 0) (1 / 10) [1, 0, 0, 1, 0, 0] (ex_vars\<lparr>e1 := 1\<rparr>))
       (49999 / 50000) (e2 ex_vars, f2 ex_vars, g2 ex_vars) = (True, 0, 0, ex_g0)"
    unfolding ex_call_evaluate
    using ex_evaluate1_accepts [OF w, of 0 "49999 / 50000" "e2 ex_vars" "f2 ex_vars" "g2 ex_vars"]
    by (simp add: ex_g0_def ex_vars_def)
  have pg: "p_dot_g 6 [1, 0, 0, 1, 0, 0] ex_g0 = 0"
    by (rule p_dot_g_zero) (simp add: change_nth_def ex_g0_def)
  have v: "e1 (ex_vars\<lparr>e1 := 1\<rparr>) = 1" "e2 (ex_vars\<lparr>e1 := 1\<rparr>) = 0" "f2 (ex_vars\<lparr>e1 := 1\<rparr>) = 0"
    "g2 (ex_vars\<lparr>e1 := 1\<rparr>) = ex_g0"
    by (simp_all add: ex_vars_def)
  show ?thesis
    by (simp add: line_trial_def Let_def v ev ex_num_variables pg)
qed

text \<open>
  C5 (as the code has it). \<open>alpha\<close> is set to 1 before the loop and multiplied by 0.1 at
  the start of every trial, the first one included: trial number \<open>k\<close> (from 0) uses the
  step \<open>0.1 ^ (k + 1)\<close>, and there are at most \<open>num_alphas = 5\<close> trials. A trial with step
  \<open>alpha\<close> ends the search exactly when evaluate accepts the stepped conformation under the
  bound \<open>e1 + 0.0001 * alpha * pg1\<close> and \<open>p . g2 \<ge> 0.9 * pg1\<close>. The search stops at the first
  such trial; when none of the five trials is accepted, the BFGS loop returns.
\<close>

theorem line_search_trials:
  "(let nv = num_variables (env_lig E);
        p = descent_direction nv h (g1 v);
        pg1 = p_dot_g nv p (g1 v)
    in (\<forall>k<num_alphas. \<not> fst (line_trial E p pg1 ((1 / 10) ^ Suc k) (trial_vars E p pg1 1 k v)))
       \<longrightarrow> \<not> fst (line_search E p pg1 num_alphas 1 v)
           \<and> bfgs_loop E (Suc n) h v = Some (trial_vars E p pg1 1 num_alphas v))
   \<and> (k < num_alphas
        \<and> (\<forall>j<k. \<not> fst (line_trial E q qg ((1 / 10) ^ Suc j) (trial_vars E q qg 1 j v)))
        \<and> fst (line_trial E q qg ((1 / 10) ^ Suc k) (trial_vars E q qg 1 k v))
      \<longrightarrow> line_search E q qg num_alphas 1 v
            = (True, (1 / 10) ^ Suc k, snd (line_trial E q qg ((1 / 10) ^ Suc k) (trial_vars E q qg 1 k v))))
   \<and> fst (line_trial E q qg a v)
       = (fst (call_evaluate E (step_c2 E a q v) (e1 v + (1 / 10000) * a * qg) (e2 v, f2 v, g2 v))
          \<and> p_dot_g (num_variables (env_lig E)) q
               (snd (snd (snd (call_evaluate E (step_c2 E a q v) (e1 v + (1 / 10000) * a * qg) (e2 v, f2 v, g2 v)))))
              \<ge> (9 / 10) * qg)
   \<and> num_alphas = 5"
proof (intro conjI)
  show "let nv = num_variables (env_lig E);
        p = descent_direction nv h (g1 v);
        pg1 = p_dot_g nv p (g1 v)
    in (\<forall>k<num_alphas. \<not> fst (line_trial E p pg1 ((1 / 10) ^ Suc k) (trial_vars E p pg1 1 k v)))
       \<longrightarrow> \<not> fst (line_search E p pg1 num_alphas 1 v)
           \<and> bfgs_loop E (Suc n) h v = Some (trial_vars E p pg1 1 num_alphas v)"
    unfolding Let_def
  proof (intro impI)
    let ?p = "descent_direction (num_variables (env_lig E)) h (g1 v)"
    let ?pg1 = "p_dot_g (num_variables (env_lig E)) ?p (g1 v)"
    assume "\<forall>k<num_alphas. \<not> fst (line_trial E ?p ?pg1 ((1 / 10) ^ Suc k) (trial_vars E ?p ?pg1 1 k v))"
    then have "\<forall>k<num_alphas. \<not> fst (line_trial E ?p ?pg1 (1 * (1 / 10) ^ Suc k) (trial_vars E ?p ?pg1 1 k v))"
      by simp
    from line_search_none [OF this]
    have l: "line_search E ?p ?pg1 num_alphas 1 v
        = (False, 1 * (1 / 10) ^ num_alphas, trial_vars E ?p ?pg1 1 num_alphas v)" .
    show "\<not> fst (line_search E ?p ?pg1 num_alphas 1 v)
           \<and> bfgs_loop E (Suc n) h v = Some (trial_vars E ?p ?pg1 1 num_alphas v)"
      by (simp add: l Let_def)
  qed
next
  show "k < num_alphas
        \<and> (\<forall>j<k. \<not> fst (line_trial E q qg ((1 / 10) ^ Suc j) (trial_vars E q qg 1 j v)))
        \<and> fst (line_trial E q qg ((1 / 10) ^ Suc k) (trial_vars E q qg 1 k v))
      \<longrightarrow> line_search E q qg num_alphas 1 v
            = (True, (1 / 10) ^ Suc k, snd (line_trial E q qg ((1 / 10) ^ Suc k) (trial_vars E q qg 1 k v)))"
  proof (intro impI, elim conjE)
    assume k: "k < num_alphas"
      and a: "\<forall>j<k. \<not> fst (line_trial E q qg ((1 / 10) ^ Suc j) (trial_vars E q qg 1 j v))"
      and b: "fst (line_trial E q qg ((1 / 10) ^ Suc k) (trial_vars E q qg 1 k v))"
    from a have a': "\<forall>j<k. \<not> fst (line_trial E q qg (1 * (1 / 10) ^ Suc j) (trial_vars E q qg 1 j v))"
      by simp
    from b have b': "fst (line_trial E q qg (1 * (1 / 10) ^ Suc k) (trial_vars E q qg 1 k v))"
      by simp
    from line_search_first [OF k a' b']
    show "line_search E q qg num_alphas 1 v
            = (True, (1 / 10) ^ Suc k, snd (line_trial E q qg ((1 / 10) ^ Suc k) (trial_vars E q qg 1 k v)))"
      by simp
  qed
next
  show "fst (line_trial E q qg a v)
       = (fst (call_evaluate E (step_c2 E a q v) (e1 v + (1 / 10000) * a * qg) (e2 v, f2 v, g2 v))
          \<and> p_dot_g (num_variables (env_lig E)) q
               (snd (snd (snd (call_evaluate E (step_c2 E a q v) (e1 v + (1 / 10000) * a * qg) (e2 v, f2 v, g2 v)))))
              \<ge> (9 / 10) * qg)"
    by (rule fst_line_trial)
next
  show "num_alphas = 5" by (rule num_alphas_def)
qed


lemma ex_line_search_first:
  "line_search (ex_env 0) [1, 0, 0, 1, 0, 0] (- 2) num_alphas 1 (ex_vars\<lparr>e1 := 1\<rparr>)
     = (True, 1 / 10, ex_vars\<lparr>e1 := 1, c2 := step_c2 (ex_env 0) (1 / 10) [1, 0, 0, 1, 0, 0] (ex_vars\<lparr>e1 := 1\<rparr>),
                e2 := 0, f2 := 0, g2 := ex_g0\<rparr>)"
  using line_search_first [of 0 num_alphas "ex_env 0" "[1, 0, 0, 1, 0, 0]" "- 2" 1 "ex_vars\<lparr>e1 := 1\<rparr>"]
  by (simp add: ex_first_trial num_alphas_def)

theorem line_search_trials_witness:
  "bfgs_loop (ex_env 100) 1 (identity_hessian 6) ex_vars \<noteq> None
   \<and> line_search (ex_env 0) [1, 0, 0, 1, 0, 0] (- 2) num_alphas 1 (ex_vars\<lparr>e1 := 1\<rparr>)
       = (True, 1 / 10, snd (line_trial (ex_env 0) [1, 0, 0, 1, 0, 0] (- 2) (1 / 10) (ex_vars\<lparr>e1 := 1\<rparr>)))"
proof (intro conjI)
  let ?p = "descent_direction (num_variables (env_lig (ex_env 100))) (identity_hessian 6) (g1 ex_vars)"
  let ?pg1 = "p_dot_g (num_variables (env_lig (ex_env 100))) ?p (g1 ex_vars)"
  have pg: "?pg1 = 0"
    by (rule p_dot_g_zero) (simp add: ex_num_variables change_nth_def ex_vars_def ex_g0_def)
  have "\<forall>k<num_alphas. \<not> fst (line_trial (ex_env 100) ?p ?pg1 ((1 / 10) ^ Suc k) (trial_vars (ex_env 100) ?p ?pg1 1 k ex_vars))"
    by (intro allI impI ex_trial_rejected) (simp only: pg e1_trial_vars, simp add: ex_vars_def)
  with line_search_trials [of "ex_env 100" "identity_hessian 6" ex_vars 0 0 "[]" 0 0]
  have "bfgs_loop (ex_env 100) (Suc 0) (identity_hessian 6) ex_vars = Some (trial_vars (ex_env 100) ?p ?pg1 1 num_alphas ex_vars)"
    unfolding Let_def by blast
  then show "bfgs_loop (ex_env 100) 1 (identity_hessian 6) ex_vars \<noteq> None"
    by simp
next
  have "(0::nat) < num_alphas
        \<and> (\<forall>j<0. \<not> fst (line_trial (ex_env 0) [1, 0, 0, 1, 0, 0] (- 2) ((1 / 10) ^ Suc j)
                 (trial_vars (ex_env 0) [1, 0, 0, 1, 0, 0] (- 2) 1 j (ex_vars\<lparr>e1 := 1\<rparr>))))
        \<and> fst (line_trial (ex_env 0) [1, 0, 0, 1, 0, 0] (- 2) ((1 / 10) ^ Suc 0)
                 (trial_vars (ex_env 0) [1, 0, 0, 1, 0, 0] (- 2) 1 0 (ex_vars\<lparr>e1 := 1\<rparr>)))"
    by (simp add: ex_first_trial num_alphas_def)
  with line_search_trials [of "ex_env 0" "[]" "ex_vars\<lparr>e1 := 1\<rparr>" 0 0 "[1, 0, 0, 1, 0, 0]" "- 2" 0]
  have "line_search (ex_env 0) [1, 0, 0, 1, 0, 0] (- 2) num_alphas 1 (ex_vars\<lparr>e1 := 1\<rparr>)
            = (True, (1 / 10) ^ Suc 0, snd (line_trial (ex_env 0) [1, 0, 0, 1, 0, 0] (- 2) ((1 / 10) ^ Suc 0)
                 (trial_vars (ex_env 0) [1, 0, 0, 1, 0, 0] (- 2) 1 0 (ex_vars\<lparr>e1 := 1\<rparr>))))"
    by blast
  then show "line_search (ex_env 0) [1, 0, 0, 1, 0, 0] (- 2) num_alphas 1 (ex_vars\<lparr>e1 := 1\<rparr>)
       = (True, 1 / 10, snd (line_trial (ex_env 0) [1, 0, 0, 1, 0, 0] (- 2) (1 / 10) (ex_vars\<lparr>e1 := 1\<rparr>)))"
    by simp
qed

text \<open>
  The first trial does not step by 1: from \<open>c1.position = (1, 1, 1)\<close> along
  \<open>p = (1, 0, 0, 1, 0, 0)\<close> the first trial is accepted with \<open>alpha = 0.1\<close> and
  \<open>c2.position = (1.1, 1, 1)\<close>.
\<close>

theorem first_trial_step_is_not_one:
  "fst (line_search (ex_env 0) [1, 0, 0, 1, 0, 0] (- 2) num_alphas 1 (ex_vars\<lparr>e1 := 1\<rparr>))
   \<and> fst (snd (line_search (ex_env 0) [1, 0, 0, 1, 0, 0] (- 2) num_alphas 1 (ex_vars\<lparr>e1 := 1\<rparr>))) = 1 / 10
   \<and> fst (snd (line_search (ex_env 0) [1, 0, 0, 1, 0, 0] (- 2) num_alphas 1 (ex_vars\<lparr>e1 := 1\<rparr>))) \<noteq> 1
   \<and> position (c1 (ex_vars\<lparr>e1 := 1\<rparr>)) = (1, 1, 1)
   \<and> position (c2 (snd (snd (line_search (ex_env 0) [1, 0, 0, 1, 0, 0] (- 2) num_alphas 1 (ex_vars\<lparr>e1 := 1\<rparr>)))))
       = (11 / 10, 1, 1)"
  by (simp add: ex_line_search_first) (simp add: step_c2_def ex_vars_def ex_conf0_def)

subsection \<open>The norm of the orientation quaternion\<close>

lemma norm_sqr4_qmul: "norm_sqr4 (qmul a b) = norm_sqr4 a * norm_sqr4 b"
proof -
  obtain a0 a1 a2 a3 where a: "a = (a0, a1, a2, a3)" by (cases a)
  obtain b0 b1 b2 b3 where b: "b = (b0, b1, b2, b3)" by (cases b)
  show ?thesis unfolding a b by (simp add: algebra_simps)
qed

lemma norm_sqr3_nonneg: "0 \<le> norm_sqr3 a"
  by (cases a) simp

lemma norm_sqr4_nonneg: "0 \<le> norm_sqr4 a"
  by (cases a) simp

lemma norm_sqr3_normalize3: "0 < norm_sqr3 a \<Longrightarrow> norm_sqr3 (normalize3 a) = 1"
proof -
  assume pos: "0 < norm_sqr3 a"
  obtain a0 a1 a2 where a: "a = (a0, a1, a2)" by (cases a)
  let ?s = "a0 * a0 + a1 * a1 + a2 * a2"
  from pos have s: "0 < ?s" by (simp add: a)
  have "norm_sqr3 (normalize3 a) = a0 * a0 / ?s + a1 * a1 / ?s + a2 * a2 / ?s"
    by (simp add: normalize3_def norm3_def a Let_def)
  also have "\<dots> = ?s / ?s"
    by (simp only: add_divide_distrib)
  also have "\<dots> = 1"
    using s by simp
  finally show ?thesis .
qed

lemma norm_sqr4_normalize4: "0 < norm_sqr4 a \<Longrightarrow> norm_sqr4 (normalize4 a) = 1"
proof -
  assume pos: "0 < norm_sqr4 a"
  obtain a0 a1 a2 a3 where a: "a = (a0, a1, a2, a3)" by (cases a)
  let ?s = "a0 * a0 + a1 * a1 + a2 * a2 + a3 * a3"
  from pos have s: "0 < ?s" by (simp add: a)
  have "norm_sqr4 (normalize4 a) = a0 * a0 / ?s + a1 * a1 / ?s + a2 * a2 / ?s + a3 * a3 / ?s"
    by (simp add: normalize4_def norm4_def a Let_def)
  also have "\<dots> = ?s / ?s"
    by (simp only: add_divide_distrib)
  also have "\<dots> = 1"
    using s by simp
  finally show ?thesis .
qed

lemma norm_sqr4_vec4_to_qtn4: "norm_sqr3 ax = 1 \<Longrightarrow> norm_sqr4 (vec4_to_qtn4 ax angle) = 1"
proof -
  assume u: "norm_sqr3 ax = 1"
  obtain x0 x1 x2 where a: "ax = (x0, x1, x2)" by (cases ax)
  let ?s = "sin (angle * (1 / 2))" and ?c = "cos (angle * (1 / 2))"
  have "norm_sqr4 (vec4_to_qtn4 ax angle) = ?c * ?c + ?s * ?s * (x0 * x0 + x1 * x1 + x2 * x2)"
    by (simp add: vec4_to_qtn4_def a Let_def algebra_simps)
  also have "x0 * x0 + x1 * x1 + x2 * x2 = 1" using u by (simp add: a)
  finally show ?thesis
    using sin_cos_squared_add3 [of "angle * (1 / 2)"] by (simp add: add.commute)
qed

lemma norm_sqr4_ex_vec3_to_qtn4: "0 < norm_sqr3 v \<Longrightarrow> norm_sqr4 (ex_vec3_to_qtn4 v) = 1"
  by (simp add: ex_vec3_to_qtn4_def norm_sqr4_vec4_to_qtn4 norm_sqr3_normalize3)

lemma normalized4_unit_factor:
  "norm_sqr4 u = 1 \<Longrightarrow> normalized4 q \<Longrightarrow> normalized4 (qmul u q)"
  by (simp add: normalized4_def norm_sqr4_qmul)

lemma orientation_mutate:
  "orientation (c1 (mutate E v)) = orientation (c0 v)
   \<or> orientation (c1 (mutate E v))
       = mutate_orientation E
           (fst (draw3 (uniform_real_distribution (env_random E) (- 1) 1)
                       (uniform_real_distribution (env_random E) (- 1) 1)
                       (uniform_real_distribution (env_random E) (- 1) 1)
                       (snd (uniform_int_distribution (env_random E) 0 (num_entities (env_lig E) - 1) (eng v)))))
           (orientation (c0 v))"
  by (simp add: mutate_def Let_def case_prod_beta)

text \<open>
  C2 (as the code has it). Neither the orientation mutation nor the line-search step
  re-normalizes: the new orientation is the quaternion product of \<open>vec3_to_qtn4\<close> of the
  rotation vector with the old orientation, stored as it is (the source then asserts
  \<open>normalized\<close>). The squared norm of the product is the product of the squared norms, so
  with a factor of unit norm an orientation within \<open>1e-2\<close> of unit norm stays so. The
  mutation leaves in \<open>c1\<close> either the orientation of \<open>c0\<close> or such a product, and the
  line search leaves such a product in \<open>c2\<close>.
\<close>

theorem orientation_product_not_renormalized:
  "norm_sqr4 (mutate_orientation E d q) = norm_sqr4 (vec3_to_qtn4 E (smul3 (1 / 100) d)) * norm_sqr4 q
   \<and> norm_sqr4 (step_orientation E alpha p q)
       = norm_sqr4 (vec3_to_qtn4 E (smul3 alpha (p ! 3, p ! 4, p ! 5))) * norm_sqr4 q
   \<and> (norm_sqr4 (vec3_to_qtn4 E (smul3 (1 / 100) d)) = 1 \<and> normalized4 q
        \<longrightarrow> normalized4 (mutate_orientation E d q))
   \<and> (norm_sqr4 (vec3_to_qtn4 E (smul3 alpha (p ! 3, p ! 4, p ! 5))) = 1 \<and> normalized4 q
        \<longrightarrow> normalized4 (step_orientation E alpha p q))
   \<and> (orientation (c1 (mutate E v)) = orientation (c0 v)
        \<or> (\<exists>r. orientation (c1 (mutate E v)) = mutate_orientation E r (orientation (c0 v))))
   \<and> orientation (step_c2 E alpha p v) = step_orientation E alpha p (orientation (c1 v))"
proof (intro conjI impI)
  show "orientation (c1 (mutate E v)) = orientation (c0 v)
        \<or> (\<exists>r. orientation (c1 (mutate E v)) = mutate_orientation E r (orientation (c0 v)))"
    using orientation_mutate [of E v] by blast
qed (simp_all add: mutate_orientation_def step_orientation_def norm_sqr4_qmul normalized4_unit_factor
      step_c2_def)

lemma ex_mutate_orientation:
  "orientation (c1 (mutate (ex_env 0) (ex_vars\<lparr>c0 := ex_conf0\<lparr>orientation := (251 / 250, 0, 0, 0)\<rparr>\<rparr>)))
     = mutate_orientation (ex_env 0) (- 1, - 1, - 1) (251 / 250, 0, 0, 0)"
  by (simp add: mutate_def Let_def ex_env_def ex_random_def num_entities_def ex_lig1_def draw3_def ex_vars_def)

lemma ex_unit_factor: "norm_sqr4 (vec3_to_qtn4 (ex_env 0) (smul3 (1 / 100) (- 1, - 1, - 1))) = 1"
  by (simp add: ex_env_def norm_sqr4_ex_vec3_to_qtn4)

theorem orientation_product_not_renormalized_witness:
  "normalized4 (mutate_orientation (ex_env 0) (- 1, - 1, - 1) (251 / 250, 0, 0, 0))
   \<and> normalized4 (step_orientation (ex_env 0) 1 [0, 0, 0, - 1 / 100, - 1 / 100, - 1 / 100] (251 / 250, 0, 0, 0))"
proof -
  have n: "normalized4 (251 / 250, 0, 0, 0)"
    by (simp add: normalized4_def)
  have u: "norm_sqr4 (vec3_to_qtn4 (ex_env 0)
      (smul3 1 ([0, 0, 0, - 1 / 100, - 1 / 100, - 1 / 100] ! 3, [0, 0, 0, - 1 / 100, - 1 / 100, - 1 / 100] ! 4,
                [0, 0, 0, - 1 / 100, - 1 / 100, - 1 / 100] ! 5))) = 1"
    by (simp add: ex_env_def norm_sqr4_ex_vec3_to_qtn4)
  from orientation_product_not_renormalized [of "ex_env 0" "(- 1, - 1, - 1)" "(251 / 250, 0, 0, 0)" 1
      "[0, 0, 0, - 1 / 100, - 1 / 100, - 1 / 100]" ex_vars] n u ex_unit_factor
  show ?thesis by blast
qed

text \<open>
  An orientation mutation that is not followed by a normalization: \<open>c0.orientation =
  (1.004, 0, 0, 0)\<close> passes \<open>normalized\<close>, and after the mutation the squared norm of
  \<open>c1.orientation\<close> is \<open>1.008016\<close>, so \<open>c1.orientation\<close> is not its own normalization.
\<close>

theorem mutated_orientation_not_unit:
  "normalized4 (orientation (c0 (ex_vars\<lparr>c0 := ex_conf0\<lparr>orientation := (251 / 250, 0, 0, 0)\<rparr>\<rparr>)))
   \<and> norm_sqr4 (orientation (c1 (mutate (ex_env 0) (ex_vars\<lparr>c0 := ex_conf0\<lparr>orientation := (251 / 250, 0, 0, 0)\<rparr>\<rparr>))))
       = 63001 / 62500
   \<and> orientation (c1 (mutate (ex_env 0) (ex_vars\<lparr>c0 := ex_conf0\<lparr>orientation := (251 / 250, 0, 0, 0)\<rparr>\<rparr>)))
       \<noteq> normalize4 (orientation (c1 (mutate (ex_env 0) (ex_vars\<lparr>c0 := ex_conf0\<lparr>orientation := (251 / 250, 0, 0, 0)\<rparr>\<rparr>))))"
proof -
  let ?q = "orientation (c1 (mutate (ex_env 0) (ex_vars\<lparr>c0 := ex_conf0\<lparr>orientation := (251 / 250, 0, 0, 0)\<rparr>\<rparr>)))"
  have ns: "norm_sqr4 ?q = 63001 / 62500"
    unfolding ex_mutate_orientation
    by (simp only: mutate_orientation_def norm_sqr4_qmul ex_unit_factor) simp
  have "norm_sqr4 (normalize4 ?q) = 1"
    by (rule norm_sqr4_normalize4) (simp add: ns)
  with ns have "?q \<noteq> normalize4 ?q" by auto
  with ns show ?thesis
    by (simp add: normalized4_def ex_vars_def ex_conf0_def)
qed

subsection \<open>When evaluate rejects\<close>

lemma place_within_char:
  "place_within b as orig m is cs =
     (if list_all (\<lambda>i. box_within b (vadd orig (mat_vec m (coordinate (as ! i))))) is
      then Some (fold (\<lambda>i cs. cs[i := vadd orig (mat_vec m (coordinate (as ! i)))]) is cs) else None)"
  by (induction "is" arbitrary: cs) (simp_all add: Let_def)

lemma length_place_all: "length (place_all as orig m b e cs) = length cs"
proof -
  have "length (fold (\<lambda>i cs. cs[i := vadd orig (mat_vec m (coordinate (as ! i)))]) is cs) = length cs" for "is"
    by (induction "is" arbitrary: cs) simp_all
  then show ?thesis by (simp add: place_all_def)
qed

lemma fk_step_lengths:
  "length (origin (snd (fk_step lig conf k ts))) = length (origin (snd ts))"
  "length (orientation_m (snd (fk_step lig conf k ts))) = length (orientation_m (snd ts))"
  "length (orientation_q (snd (fk_step lig conf k ts))) = length (orientation_q (snd ts))"
  "length (coordinates (snd (fk_step lig conf k ts))) = length (coordinates (snd ts))"
  by (simp_all add: fk_step_def Let_def length_place_all)

lemma fk_step_other:
  "j \<noteq> k \<Longrightarrow> origin (snd (fk_step lig conf k ts)) ! j = origin (snd ts) ! j"
  "j \<noteq> k \<Longrightarrow> orientation_m (snd (fk_step lig conf k ts)) ! j = orientation_m (snd ts) ! j"
  "j \<noteq> k \<Longrightarrow> orientation_q (snd (fk_step lig conf k ts)) ! j = orientation_q (snd ts) ! j"
  by (simp_all add: fk_step_def Let_def)

lemma fk_fold_lengths:
  "length (origin (snd (fold (fk_step lig conf) ks ts))) = length (origin (snd ts))"
  "length (orientation_m (snd (fold (fk_step lig conf) ks ts))) = length (orientation_m (snd ts))"
  "length (orientation_q (snd (fold (fk_step lig conf) ks ts))) = length (orientation_q (snd ts))"
  "length (coordinates (snd (fold (fk_step lig conf) ks ts))) = length (coordinates (snd ts))"
  by (induction ks arbitrary: ts) (simp_all add: fk_step_lengths)

lemma fk_fold_other:
  "j \<notin> set ks \<Longrightarrow> origin (snd (fold (fk_step lig conf) ks ts)) ! j = origin (snd ts) ! j"
  "j \<notin> set ks \<Longrightarrow> orientation_m (snd (fold (fk_step lig conf) ks ts)) ! j = orientation_m (snd ts) ! j"
  "j \<notin> set ks \<Longrightarrow> orientation_q (snd (fold (fk_step lig conf) ks ts)) ! j = orientation_q (snd ts) ! j"
  by (induction ks arbitrary: ts) (simp_all add: fk_step_other)

lemma eval_branches_step:
  assumes "k < length (origin s)" "k < length (orientation_m s)"
  shows "eval_branches lig conf b (k # ks) t s =
     (if frame_within lig b (snd (fk_step lig conf k (t, s))) k
      then eval_branches lig conf b ks (fst (fk_step lig conf k (t, s))) (snd (fk_step lig conf k (t, s)))
      else None)"
proof (cases "active (frames lig ! k)")
  case False
  with assms show ?thesis
    by (simp add: fk_step_def frame_within_def Let_def)
next
  case True
  with assms show ?thesis
    by (simp add: fk_step_def frame_within_def Let_def place_within_char place_all_def atom_world_def)
qed

lemma eval_branches_char:
  "distinct ks \<Longrightarrow> \<forall>k\<in>set ks. k < length (origin s) \<and> k < length (orientation_m s) \<Longrightarrow>
   eval_branches lig conf b ks t s =
     (if \<forall>k\<in>set ks. frame_within lig b (snd (fold (fk_step lig conf) ks (t, s))) k
      then Some (snd (fold (fk_step lig conf) ks (t, s))) else None)"
proof (induction ks arbitrary: t s)
  case Nil
  show ?case by simp
next
  case (Cons k ks)
  let ?ts = "fk_step lig conf k (t, s)"
  let ?fin = "snd (fold (fk_step lig conf) ks ?ts)"
  from Cons.prems have k: "k < length (origin s)" "k < length (orientation_m s)" "k \<notin> set ks" "distinct ks"
    by simp_all
  have len: "\<forall>j\<in>set ks. j < length (origin (snd ?ts)) \<and> j < length (orientation_m (snd ?ts))"
    using Cons.prems(2) by (simp add: fk_step_lengths)
  have IH: "eval_branches lig conf b ks (fst ?ts) (snd ?ts) =
     (if \<forall>j\<in>set ks. frame_within lig b ?fin j then Some ?fin else None)"
    using Cons.IH [OF k(4) len, of "fst ?ts"] by simp
  have same: "frame_within lig b (snd ?ts) k = frame_within lig b ?fin k"
    using k(3) by (simp add: frame_within_def fk_fold_other)
  show ?case
    by (simp add: eval_branches_step [OF k(1,2)] IH same del: eval_branches.simps)
qed

lemma place_within_all:
  "place_within b (heavy_atoms lig) orig m [lo..<hi] cs =
     (if list_all (\<lambda>i. box_within b (atom_world lig orig m i)) [lo..<hi]
      then Some (place_all (heavy_atoms lig) orig m lo hi cs) else None)"
  by (simp add: place_within_char place_all_def atom_world_def)

lemma eval_init_lengths:
  "length (origin (eval_init lig conf)) = num_frames lig"
  "length (orientation_m (eval_init lig conf)) = num_frames lig"
  "length (orientation_q (eval_init lig conf)) = num_frames lig"
  "length (coordinates (eval_init lig conf)) = num_heavy_atoms lig"
  by (simp_all add: eval_init_def)

lemma fk_root_lengths:
  "length (origin (fk_root lig conf)) = num_frames lig"
  "length (orientation_m (fk_root lig conf)) = num_frames lig"
  "length (orientation_q (fk_root lig conf)) = num_frames lig"
  "length (coordinates (fk_root lig conf)) = num_heavy_atoms lig"
  by (simp_all add: fk_root_def Let_def eval_init_lengths length_place_all)

lemma eval_kinematics_char:
  assumes "0 < num_frames lig"
  shows "eval_kinematics lig conf b =
     (if box_within b (position conf)
         \<and> list_all (\<lambda>i. box_within b (atom_world lig (position conf) (qtn4_to_mat3 (orientation conf)) i))
              [habegin (frames lig ! 0)..<haend (frames lig ! 0)]
         \<and> (\<forall>k\<in>{1..<num_frames lig}. frame_within lig b (fk lig conf) k)
      then Some (fk lig conf) else None)"
proof -
  have o0: "origin (eval_init lig conf) ! 0 = position conf"
    and m0: "orientation_m (eval_init lig conf) ! 0 = qtn4_to_mat3 (orientation conf)"
    using assms by (simp_all add: eval_init_def)
  have br: "eval_branches lig conf b [1..<num_frames lig] 0 (fk_root lig conf) =
     (if \<forall>k\<in>set [1..<num_frames lig]. frame_within lig b (fk lig conf) k
      then Some (fk lig conf) else None)"
    unfolding fk_def
    by (rule eval_branches_char) (simp_all add: fk_root_lengths)
  show ?thesis
    using br by (simp add: eval_kinematics_def Let_def place_within_all o0 m0 fk_root_def)
qed

lemma upt_1_3: "[1..<3] = [1, 2]"
  by (simp add: upt_rec)

lemma upt_0_2: "[0..<2] = [0, 1]"
  by (simp add: upt_rec)

lemma upt_2_4: "[2..<4] = [2, 3]"
  by (simp add: upt_rec)

lemma upt_4_5: "[4..<5] = [4]"
  by (simp add: upt_rec)

lemma ex_fk3:
  "fk ex_lig3 (ex_conf3 (x, y, z)) =
     \<lparr>origin = [(x, y, z), (x + 2, y, z), (x + 2, y + 2, z)],
      orientation_q = [(1, 0, 0, 0), (1, 0, 0, 0), (0, 0, 0, 0)],
      orientation_m = [Mat3 1 0 0 0 1 0 0 0 1, Mat3 1 0 0 0 1 0 0 0 1, Mat3 0 0 0 0 0 0 0 0 0],
      axis = [(0, 0, 0), (1, 0, 0), (0, 0, 0)],
      coordinates = [(x, y, z), (x + 1, y, z), (x + 2, y, z), (x + 2, y + 1, z), (x + 2, y + 2, z)]\<rparr>"
  by (simp add: fk_def fk_root_def fk_step_def eval_init_def place_all_def ex_lig3_def ex_frames3_def
      ex_conf3_def ex_atom_def num_frames_def num_heavy_atoms_def zero3_def vec4_to_qtn4_def Let_def
      upt_1_3 upt_0_2 upt_2_4 upt_4_5)

text \<open>
  C4. \<open>ligand::evaluate\<close> returns false if and only if \<open>conf.position\<close> is not within the
  box, or the world coordinate of some heavy atom of the ROOT frame is not, or the origin of
  some BRANCH frame is not, or the world coordinate of some heavy atom of an active BRANCH
  frame is not (the one heavy atom of an inactive frame is placed at the frame's origin), or
  the total energy is at least the upper bound; otherwise it returns true with the total
  energy, the inter-molecular energy and the gradient.
\<close>

theorem evaluate_rejects_iff:
  assumes "0 < num_frames lig"
  shows "((\<not> fst (evaluate lig conf sf b maps bound (e, f, g))) =
      (\<not> box_within b (position conf)
       \<or> (\<exists>i\<in>{habegin (frames lig ! 0)..<haend (frames lig ! 0)}.
             \<not> box_within b (atom_world lig (position conf) (qtn4_to_mat3 (orientation conf)) i))
       \<or> (\<exists>k\<in>{1..<num_frames lig}. \<not> box_within b (origin (fk lig conf) ! k))
       \<or> (\<exists>k\<in>{1..<num_frames lig}. active (frames lig ! k) \<and>
             (\<exists>i\<in>{habegin (frames lig ! k)..<haend (frames lig ! k)}.
                \<not> box_within b (atom_world lig (origin (fk lig conf) ! k) (orientation_m (fk lig conf) ! k) i)))
       \<or> fst (eval_energy lig sf b maps (coordinates (fk lig conf))) \<ge> bound))
    \<and> (fst (evaluate lig conf sf b maps bound (e, f, g)) \<longrightarrow>
         evaluate lig conf sf b maps bound (e, f, g) =
           (True, fst (eval_energy lig sf b maps (coordinates (fk lig conf))),
            fst (snd (eval_energy lig sf b maps (coordinates (fk lig conf)))),
            eval_gradient lig (fk lig conf) (snd (snd (eval_energy lig sf b maps (coordinates (fk lig conf))))) g))"
proof -
  have fw: "(\<forall>k\<in>{1..<num_frames lig}. frame_within lig b (fk lig conf) k) =
      (\<not> ((\<exists>k\<in>{1..<num_frames lig}. \<not> box_within b (origin (fk lig conf) ! k))
        \<or> (\<exists>k\<in>{1..<num_frames lig}. active (frames lig ! k) \<and>
             (\<exists>i\<in>{habegin (frames lig ! k)..<haend (frames lig ! k)}.
                \<not> box_within b (atom_world lig (origin (fk lig conf) ! k) (orientation_m (fk lig conf) ! k) i)))))"
    by (auto simp: frame_within_def list_all_iff)
  have rt: "list_all (\<lambda>i. box_within b (atom_world lig (position conf) (qtn4_to_mat3 (orientation conf)) i))
              [habegin (frames lig ! 0)..<haend (frames lig ! 0)] =
      (\<not> (\<exists>i\<in>{habegin (frames lig ! 0)..<haend (frames lig ! 0)}.
             \<not> box_within b (atom_world lig (position conf) (qtn4_to_mat3 (orientation conf)) i)))"
    by (auto simp: list_all_iff)
  show ?thesis
    unfolding evaluate_def eval_kinematics_char [OF assms] fw rt
    by (simp add: Let_def)
qed

lemma ex_energy3: "eval_energy ex_lig3 ex_sf ex_box (\<lambda>t x y z. 0) cs = (0, 0, [(0, 0, 0), (0, 0, 0), (0, 0, 0), (0, 0, 0), (0, 0, 0)])"
  by (simp add: eval_energy_def num_heavy_atoms_def ex_lig3_def inter_step_def ex_box_def zero3_def
      upt_rec case_prod_beta)

lemma ex_num_frames3: "num_frames ex_lig3 = 3"
  by (simp add: num_frames_def ex_lig3_def ex_frames3_def)

lemma ex_frames3_nth:
  "frames ex_lig3 ! 0 = \<lparr>parent = 0, rotorX = 0, rotorY = 0, habegin = 0, haend = 2, hybegin = 0, hyend = 0,
       active = True, yy = (0, 0, 0), xy = (0, 0, 0)\<rparr>"
  "frames ex_lig3 ! 1 = \<lparr>parent = 0, rotorX = 1, rotorY = 2, habegin = 2, haend = 4, hybegin = 0, hyend = 0,
       active = True, yy = (2, 0, 0), xy = (1, 0, 0)\<rparr>"
  "frames ex_lig3 ! Suc 0 = \<lparr>parent = 0, rotorX = 1, rotorY = 2, habegin = 2, haend = 4, hybegin = 0, hyend = 0,
       active = True, yy = (2, 0, 0), xy = (1, 0, 0)\<rparr>"
  "frames ex_lig3 ! 2 = \<lparr>parent = 1, rotorX = 3, rotorY = 4, habegin = 4, haend = 5, hybegin = 0, hyend = 0,
       active = False, yy = (0, 2, 0), xy = (0, 1, 0)\<rparr>"
  by (simp_all add: ex_lig3_def ex_frames3_def)

lemma ex_atom_world3:
  "atom_world ex_lig3 (a, b, c) (Mat3 1 0 0 0 1 0 0 0 1) 0 = (a, b, c)"
  "atom_world ex_lig3 (a, b, c) (Mat3 1 0 0 0 1 0 0 0 1) 1 = (a + 1, b, c)"
  "atom_world ex_lig3 (a, b, c) (Mat3 1 0 0 0 1 0 0 0 1) (Suc 0) = (a + 1, b, c)"
  "atom_world ex_lig3 (a, b, c) (Mat3 1 0 0 0 1 0 0 0 1) 2 = (a, b, c)"
  "atom_world ex_lig3 (a, b, c) (Mat3 1 0 0 0 1 0 0 0 1) 3 = (a, b + 1, c)"
  by (simp_all add: atom_world_def ex_lig3_def ex_atom_def)

lemma bex_1_3: "(\<exists>k\<in>{Suc 0..<3}. P k) = (P (Suc 0) \<or> P 2)"
proof -
  have "{Suc 0..<3} = {Suc 0, 2}" by auto
  then show ?thesis by simp
qed

lemma bex_0_2: "(\<exists>k\<in>{0..<2::nat}. P k) = (P 0 \<or> P 1)"
proof -
  have "{0..<2::nat} = {0, 1}" by auto
  then show ?thesis by simp
qed

lemma bex_2_4: "(\<exists>k\<in>{2..<4::nat}. P k) = (P 2 \<or> P 3)"
proof -
  have "{2..<4::nat} = {2, 3}" by auto
  then show ?thesis by simp
qed

lemma ex_box_within:
  "box_within ex_box (a, b, c) = (0 \<le> a \<and> a < 10 \<and> 0 \<le> b \<and> b < 10 \<and> 0 \<le> c \<and> c < 10)"
  by (simp add: box_within_def ex_box_def)

theorem evaluate_rejects_iff_witness:
  "\<not> fst (evaluate ex_lig3 (ex_conf3 (1, 46 / 5, 1)) ex_sf ex_box (\<lambda>t x y z. 0) 20 (0, 0, ex_g0))
   \<and> fst (evaluate ex_lig3 (ex_conf3 (1, 1, 1)) ex_sf ex_box (\<lambda>t x y z. 0) 20 (0, 0, ex_g0))"
proof
  have nf: "0 < num_frames ex_lig3" by (simp add: ex_num_frames3)
  have "\<not> box_within ex_box
      (atom_world ex_lig3 (origin (fk ex_lig3 (ex_conf3 (1, 46 / 5, 1))) ! 1)
         (orientation_m (fk ex_lig3 (ex_conf3 (1, 46 / 5, 1))) ! 1) 3)"
    by (simp add: ex_fk3 ex_atom_world3 ex_box_within)
  then have "\<exists>k\<in>{1..<num_frames ex_lig3}. active (frames ex_lig3 ! k) \<and>
             (\<exists>i\<in>{habegin (frames ex_lig3 ! k)..<haend (frames ex_lig3 ! k)}.
                \<not> box_within ex_box (atom_world ex_lig3 (origin (fk ex_lig3 (ex_conf3 (1, 46 / 5, 1))) ! k)
                     (orientation_m (fk ex_lig3 (ex_conf3 (1, 46 / 5, 1))) ! k) i))"
    by (intro bexI [of _ 1] conjI bexI [of _ 3]) (simp_all add: ex_num_frames3 ex_frames3_nth)
  with evaluate_rejects_iff [OF nf, of "ex_conf3 (1, 46 / 5, 1)" ex_sf ex_box "\<lambda>t x y z. 0" 20 0 0 ex_g0]
  show "\<not> fst (evaluate ex_lig3 (ex_conf3 (1, 46 / 5, 1)) ex_sf ex_box (\<lambda>t x y z. 0) 20 (0, 0, ex_g0))"
    by blast
next
  have nf: "0 < num_frames ex_lig3" by (simp add: ex_num_frames3)
  have p: "position (ex_conf3 (1, 1, 1)) = (1, 1, 1)" "qtn4_to_mat3 (orientation (ex_conf3 (1, 1, 1))) = Mat3 1 0 0 0 1 0 0 0 1"
    by (simp_all add: ex_conf3_def)
  from evaluate_rejects_iff [OF nf, of "ex_conf3 (1, 1, 1)" ex_sf ex_box "\<lambda>t x y z. 0" 20 0 0 ex_g0]
  show "fst (evaluate ex_lig3 (ex_conf3 (1, 1, 1)) ex_sf ex_box (\<lambda>t x y z. 0) 20 (0, 0, ex_g0))"
    by (simp add: ex_num_frames3 bex_1_3 bex_2_4 bex_0_2 ex_frames3_nth ex_fk3 ex_atom_world3 ex_energy3 p
        ex_box_within)
qed

lemma place_all_single: "place_all as orig m h (Suc h) cs = cs[h := vadd orig (mat_vec m (coordinate (as ! h)))]"
  by (simp add: place_all_def)

lemma fk_sim_step:
  assumes t: "te = tc"
    and o: "origin se = origins sc"
    and c: "coordinates se = out_heavy_atoms sc"
    and lq: "length (orientation_q se) = length (orientations_q sc)"
    and lm: "length (orientation_m se) = length (orientations_m sc)"
    and klq: "k < length (orientation_q se)" and klm: "k < length (orientation_m se)"
    and agree: "\<forall>j<k. (j = 0 \<or> active (frames lig ! j)) \<longrightarrow>
        orientation_q se ! j = orientations_q sc ! j \<and> orientation_m se ! j = orientations_m sc ! j"
    and par: "parent (frames lig ! k) < k"
      "parent (frames lig ! k) = 0 \<or> active (frames lig ! parent (frames lig ! k))"
    and inact: "\<not> active (frames lig ! k) \<longrightarrow>
        habegin (frames lig ! k) = rotorY (frames lig ! k)
        \<and> haend (frames lig ! k) = Suc (habegin (frames lig ! k))
        \<and> coordinate (heavy_atoms lig ! rotorY (frames lig ! k)) = (0, 0, 0)"
  shows "fst (fk_step lig conf k (te, se)) = fst (compose_branch lig conf k (tc, sc))
    \<and> origin (snd (fk_step lig conf k (te, se))) = origins (snd (compose_branch lig conf k (tc, sc)))
    \<and> coordinates (snd (fk_step lig conf k (te, se))) = out_heavy_atoms (snd (compose_branch lig conf k (tc, sc)))
    \<and> length (orientation_q (snd (fk_step lig conf k (te, se)))) = length (orientations_q (snd (compose_branch lig conf k (tc, sc))))
    \<and> length (orientation_m (snd (fk_step lig conf k (te, se)))) = length (orientations_m (snd (compose_branch lig conf k (tc, sc))))
    \<and> (\<forall>j<Suc k. (j = 0 \<or> active (frames lig ! j)) \<longrightarrow>
          orientation_q (snd (fk_step lig conf k (te, se))) ! j = orientations_q (snd (compose_branch lig conf k (tc, sc))) ! j
          \<and> orientation_m (snd (fk_step lig conf k (te, se))) ! j = orientations_m (snd (compose_branch lig conf k (tc, sc))) ! j)"
proof -
  let ?p = "parent (frames lig ! k)"
  from agree par have pq: "orientation_q se ! ?p = orientations_q sc ! ?p"
    and pm: "orientation_m se ! ?p = orientations_m sc ! ?p"
    by auto
  have kp: "k \<noteq> 0" using par(1) by simp
  show ?thesis
  proof (cases "active (frames lig ! k)")
    case True
    have "\<forall>j<Suc k. (j = 0 \<or> active (frames lig ! j)) \<longrightarrow>
          orientation_q (snd (fk_step lig conf k (te, se))) ! j = orientations_q (snd (compose_branch lig conf k (tc, sc))) ! j
          \<and> orientation_m (snd (fk_step lig conf k (te, se))) ! j = orientations_m (snd (compose_branch lig conf k (tc, sc))) ! j"
    proof (intro allI impI)
      fix j assume j: "j < Suc k" and a: "j = 0 \<or> active (frames lig ! j)"
      show "orientation_q (snd (fk_step lig conf k (te, se))) ! j = orientations_q (snd (compose_branch lig conf k (tc, sc))) ! j
          \<and> orientation_m (snd (fk_step lig conf k (te, se))) ! j = orientations_m (snd (compose_branch lig conf k (tc, sc))) ! j"
      proof (cases "j = k")
        case True
        with \<open>active (frames lig ! k)\<close> klq klm lq lm show ?thesis
          by (simp add: fk_step_def compose_branch_def Let_def t o pq pm)
      next
        case False
        with j have "j < k" by simp
        with agree a have "orientation_q se ! j = orientations_q sc ! j \<and> orientation_m se ! j = orientations_m sc ! j"
          by blast
        with False \<open>active (frames lig ! k)\<close> show ?thesis
          by (simp add: fk_step_def compose_branch_def Let_def)
      qed
    qed
    with True show ?thesis
      by (simp add: fk_step_def compose_branch_def Let_def t o c lq lm pq pm)
  next
    case False
    with inact have h: "habegin (frames lig ! k) = rotorY (frames lig ! k)"
      "haend (frames lig ! k) = Suc (habegin (frames lig ! k))"
      "coordinate (heavy_atoms lig ! rotorY (frames lig ! k)) = (0, 0, 0)"
      by simp_all
    have "\<forall>j<Suc k. (j = 0 \<or> active (frames lig ! j)) \<longrightarrow>
          orientation_q (snd (fk_step lig conf k (te, se))) ! j = orientations_q (snd (compose_branch lig conf k (tc, sc))) ! j
          \<and> orientation_m (snd (fk_step lig conf k (te, se))) ! j = orientations_m (snd (compose_branch lig conf k (tc, sc))) ! j"
    proof (intro allI impI)
      fix j assume j: "j < Suc k" and a: "j = 0 \<or> active (frames lig ! j)"
      from a False kp have "j \<noteq> k" by auto
      with j have "j < k" by simp
      with agree a have "orientation_q se ! j = orientations_q sc ! j \<and> orientation_m se ! j = orientations_m sc ! j"
        by blast
      with \<open>j \<noteq> k\<close> False
      show "orientation_q (snd (fk_step lig conf k (te, se))) ! j = orientations_q (snd (compose_branch lig conf k (tc, sc))) ! j
          \<and> orientation_m (snd (fk_step lig conf k (te, se))) ! j = orientations_m (snd (compose_branch lig conf k (tc, sc))) ! j"
        by (simp add: fk_step_def compose_branch_def Let_def)
    qed
    with False show ?thesis
      by (simp add: fk_step_def compose_branch_def Let_def t o c lq lm pq pm h place_all_single
          mat_vec_zero vadd_zero)
  qed
qed

lemma fk_sim_fold:
  assumes nf: "0 < num_frames lig"
    and par: "\<forall>k\<in>{1..<num_frames lig}. parent (frames lig ! k) < k
        \<and> (parent (frames lig ! k) = 0 \<or> active (frames lig ! parent (frames lig ! k)))"
    and inact: "\<forall>k\<in>{1..<num_frames lig}. \<not> active (frames lig ! k) \<longrightarrow>
        habegin (frames lig ! k) = rotorY (frames lig ! k)
        \<and> haend (frames lig ! k) = Suc (habegin (frames lig ! k))
        \<and> coordinate (heavy_atoms lig ! rotorY (frames lig ! k)) = (0, 0, 0)"
  shows "Suc n \<le> num_frames lig \<Longrightarrow>
    fst (fold (fk_step lig conf) [1..<Suc n] (0, fk_root lig conf))
      = fst (fold (compose_branch lig conf) [1..<Suc n] (0, compose_init lig conf))
    \<and> origin (snd (fold (fk_step lig conf) [1..<Suc n] (0, fk_root lig conf)))
      = origins (snd (fold (compose_branch lig conf) [1..<Suc n] (0, compose_init lig conf)))
    \<and> coordinates (snd (fold (fk_step lig conf) [1..<Suc n] (0, fk_root lig conf)))
      = out_heavy_atoms (snd (fold (compose_branch lig conf) [1..<Suc n] (0, compose_init lig conf)))
    \<and> length (orientation_q (snd (fold (fk_step lig conf) [1..<Suc n] (0, fk_root lig conf))))
      = length (orientations_q (snd (fold (compose_branch lig conf) [1..<Suc n] (0, compose_init lig conf))))
    \<and> length (orientation_m (snd (fold (fk_step lig conf) [1..<Suc n] (0, fk_root lig conf))))
      = length (orientations_m (snd (fold (compose_branch lig conf) [1..<Suc n] (0, compose_init lig conf))))
    \<and> (\<forall>j<Suc n. (j = 0 \<or> active (frames lig ! j)) \<longrightarrow>
          orientation_q (snd (fold (fk_step lig conf) [1..<Suc n] (0, fk_root lig conf))) ! j
            = orientations_q (snd (fold (compose_branch lig conf) [1..<Suc n] (0, compose_init lig conf))) ! j
          \<and> orientation_m (snd (fold (fk_step lig conf) [1..<Suc n] (0, fk_root lig conf))) ! j
            = orientations_m (snd (fold (compose_branch lig conf) [1..<Suc n] (0, compose_init lig conf))) ! j)"
proof (induction n)
  case 0
  from nf show ?case
    by (simp add: fk_root_def compose_init_def eval_init_def Let_def)
next
  case (Suc n)
  let ?a = "fold (fk_step lig conf) [1..<Suc n] (0, fk_root lig conf)"
  let ?c = "fold (compose_branch lig conf) [1..<Suc n] (0, compose_init lig conf)"
  from Suc.prems have n: "Suc n \<le> num_frames lig" "Suc n \<in> {1..<num_frames lig}"
    by simp_all
  note IH = Suc.IH [OF n(1)]
  have fa: "fold (fk_step lig conf) [1..<Suc (Suc n)] (0, fk_root lig conf)
      = fk_step lig conf (Suc n) (fst ?a, snd ?a)"
    by simp
  have fc: "fold (compose_branch lig conf) [1..<Suc (Suc n)] (0, compose_init lig conf)
      = compose_branch lig conf (Suc n) (fst ?c, snd ?c)"
    by simp
  have klq: "Suc n < length (orientation_q (snd ?a))" and klm: "Suc n < length (orientation_m (snd ?a))"
    using Suc.prems by (simp_all add: fk_fold_lengths fk_root_lengths)
  from par n(2) have p: "parent (frames lig ! Suc n) < Suc n"
      "parent (frames lig ! Suc n) = 0 \<or> active (frames lig ! parent (frames lig ! Suc n))"
    by blast+
  from inact n(2) have i: "\<not> active (frames lig ! Suc n) \<longrightarrow>
        habegin (frames lig ! Suc n) = rotorY (frames lig ! Suc n)
        \<and> haend (frames lig ! Suc n) = Suc (habegin (frames lig ! Suc n))
        \<and> coordinate (heavy_atoms lig ! rotorY (frames lig ! Suc n)) = (0, 0, 0)"
    by blast
  show ?case
    unfolding fa fc
    by (rule fk_sim_step [OF _ _ _ _ _ klq klm _ p i]) (use IH in blast)+
qed

lemma fk_coordinates_compose:
  assumes nf: "0 < num_frames lig"
    and par: "\<forall>k\<in>{1..<num_frames lig}. parent (frames lig ! k) < k
        \<and> (parent (frames lig ! k) = 0 \<or> active (frames lig ! parent (frames lig ! k)))"
    and inact: "\<forall>k\<in>{1..<num_frames lig}. \<not> active (frames lig ! k) \<longrightarrow>
        habegin (frames lig ! k) = rotorY (frames lig ! k)
        \<and> haend (frames lig ! k) = Suc (habegin (frames lig ! k))
        \<and> coordinate (heavy_atoms lig ! rotorY (frames lig ! k)) = (0, 0, 0)"
  shows "coordinates (fk lig conf) = r_heavy_atoms (compose_result lig e f conf)"
proof -
  obtain n where n: "num_frames lig = Suc n"
    using nf by (cases "num_frames lig") simp_all
  from fk_sim_fold [OF nf par inact, of n conf] n show ?thesis
    by (simp add: fk_def compose_result_def Let_def)
qed

subsection \<open>compose\_result against the kinematics of evaluate\<close>

lemma ball_1_3: "(\<forall>k\<in>{Suc 0..<3}. P k) = (P (Suc 0) \<and> P 2)"
proof -
  have "{Suc 0..<3} = {Suc 0, 2}" by auto
  then show ?thesis by simp
qed

lemma ex_kin3: "eval_kinematics ex_lig3 (ex_conf3 (1, 1, 1)) ex_box = Some (fk ex_lig3 (ex_conf3 (1, 1, 1)))"
proof -
  have nf: "0 < num_frames ex_lig3" by (simp add: ex_num_frames3)
  have p: "position (ex_conf3 (1, 1, 1)) = (1, 1, 1)" "qtn4_to_mat3 (orientation (ex_conf3 (1, 1, 1))) = Mat3 1 0 0 0 1 0 0 0 1"
    by (simp_all add: ex_conf3_def)
  show ?thesis
    unfolding eval_kinematics_char [OF nf]
    by (simp add: frame_within_def ex_num_frames3 ball_1_3 ex_frames3_nth ex_fk3 ex_atom_world3 p
        ex_box_within upt_2_4 upt_0_2)
qed

subsection \<open>When the constructor raises a parsing error\<close>










subsection \<open>The interacting pairs\<close>

text \<open>
  The neighbors collected for an atom are the atoms within three bonds of it in the bond
  lists, the bond lists hold the bond graph, and the frames the parser returns are
  consecutive ranges of heavy atoms with their rotors among the atoms.
\<close>

lemma set_add_neighbor: "set (add_neighbor b n) = insert b (set n)"
  by (auto simp: add_neighbor_def)

lemma set_fold_neighbors3:
  "set (fold (\<lambda>b3 n3. add_neighbor b3 n3) l n) = set l \<union> set n"
  by (induction l arbitrary: n) (auto simp: set_add_neighbor)

lemma set_fold_neighbors2:
  "set (fold (\<lambda>b2 n2. fold (\<lambda>b3 n3. add_neighbor b3 n3) (bonds ! b2) (add_neighbor b2 n2)) l n)
     = set n \<union> set l \<union> (\<Union>b2\<in>set l. set (bonds ! b2))"
  by (induction l arbitrary: n) (auto simp: set_add_neighbor set_fold_neighbors3)

lemma set_fold_neighbors1:
  "set (fold (\<lambda>b1 n1. fold (\<lambda>b2 n2. fold (\<lambda>b3 n3. add_neighbor b3 n3) (bonds ! b2) (add_neighbor b2 n2))
                         (bonds ! b1) (add_neighbor b1 n1)) l n)
     = set n \<union> set l \<union> (\<Union>b1\<in>set l. set (bonds ! b1) \<union> (\<Union>b2\<in>set (bonds ! b1). set (bonds ! b2)))"
  by (induction l arbitrary: n) (auto simp: set_add_neighbor set_fold_neighbors2)

lemma set_find_neighbors:
  "j \<in> set (find_neighbors bonds i) \<longleftrightarrow> within3 (\<lambda>a b. b \<in> set (bonds ! a)) i j"
  by (auto simp: find_neighbors_def set_fold_neighbors1 within3_def)

lemma in_atom_pairs:
  "p \<in> set (atom_pairs fs has nbs k1 i) \<longleftrightarrow>
     (\<exists>k2 j. k1 < k2 \<and> k2 < length fs \<and> habegin (fs ! k2) \<le> j \<and> j < haend (fs ! k2)
        \<and> \<not> (k1 = parent (fs ! k2) \<and> (j = rotorY (fs ! k2) \<or> i = rotorX (fs ! k2)))
        \<and> j \<notin> set nbs
        \<and> p = \<lparr>i1 = i, i2 = j, type_pair_index = mp (xs (has ! i)) (xs (has ! j))\<rparr>)"
proof -
  have "p \<in> set (atom_pairs fs has nbs k1 i) \<longleftrightarrow>
     (\<exists>k2\<in>{k1 + 1..<length fs}. \<exists>j\<in>{j \<in> {habegin (fs ! k2)..<haend (fs ! k2)}.
          \<not> ((k1 = parent (fs ! k2) \<and> (j = rotorY (fs ! k2) \<or> i = rotorX (fs ! k2))) \<or> j \<in> set nbs)}.
        p = \<lparr>i1 = i, i2 = j, type_pair_index = mp (xs (has ! i)) (xs (has ! j))\<rparr>)"
    by (simp add: atom_pairs_def Let_def image_iff)
  also have "\<dots> \<longleftrightarrow> (\<exists>k2 j. k1 < k2 \<and> k2 < length fs \<and> habegin (fs ! k2) \<le> j \<and> j < haend (fs ! k2)
        \<and> \<not> (k1 = parent (fs ! k2) \<and> (j = rotorY (fs ! k2) \<or> i = rotorX (fs ! k2)))
        \<and> j \<notin> set nbs
        \<and> p = \<lparr>i1 = i, i2 = j, type_pair_index = mp (xs (has ! i)) (xs (has ! j))\<rparr>)"
    unfolding Bex_def by (intro arg_cong [where f = Ex] ext) auto
  finally show ?thesis .
qed

lemma in_find_pairs:
  "p \<in> set (find_pairs fs has bonds) \<longleftrightarrow>
     (\<exists>k1 i k2 j. k1 < k2 \<and> k2 < length fs
        \<and> habegin (fs ! k1) \<le> i \<and> i < haend (fs ! k1)
        \<and> habegin (fs ! k2) \<le> j \<and> j < haend (fs ! k2)
        \<and> \<not> (k1 = parent (fs ! k2) \<and> (j = rotorY (fs ! k2) \<or> i = rotorX (fs ! k2)))
        \<and> \<not> within3 (\<lambda>a b. b \<in> set (bonds ! a)) i j
        \<and> p = \<lparr>i1 = i, i2 = j, type_pair_index = mp (xs (has ! i)) (xs (has ! j))\<rparr>)"
proof -
  have "p \<in> set (find_pairs fs has bonds) \<longleftrightarrow>
     (\<exists>k1\<in>{0..<length fs}. \<exists>i\<in>{habegin (fs ! k1)..<haend (fs ! k1)}.
        p \<in> set (atom_pairs fs has (find_neighbors bonds i) k1 i))"
    by (simp add: find_pairs_def)
  also have "\<dots> \<longleftrightarrow> (\<exists>k1 i k2 j. k1 < k2 \<and> k2 < length fs
        \<and> habegin (fs ! k1) \<le> i \<and> i < haend (fs ! k1)
        \<and> habegin (fs ! k2) \<le> j \<and> j < haend (fs ! k2)
        \<and> \<not> (k1 = parent (fs ! k2) \<and> (j = rotorY (fs ! k2) \<or> i = rotorX (fs ! k2)))
        \<and> \<not> within3 (\<lambda>a b. b \<in> set (bonds ! a)) i j
        \<and> p = \<lparr>i1 = i, i2 = j, type_pair_index = mp (xs (has ! i)) (xs (has ! j))\<rparr>)"
    unfolding in_atom_pairs set_find_neighbors Bex_def
    by (intro arg_cong [where f = Ex] ext) auto
  finally show ?thesis .
qed


lemma length_add_bond: "length (add_bond i j b) = length b"
  by (simp add: add_bond_def Let_def)

lemma in_add_bond:
  "i < length b \<Longrightarrow> j < length b \<Longrightarrow>
   c \<in> set (add_bond i j b ! a) \<longleftrightarrow> c \<in> set (b ! a) \<or> (a = i \<and> c = j) \<or> (a = j \<and> c = i)"
  by (cases "a = i"; cases "a = j") (auto simp: add_bond_def Let_def)

lemma bonds_inner:
  "i < length b \<Longrightarrow> \<forall>j\<in>set js. j < length b \<Longrightarrow>
   length (fold (\<lambda>j b'. if nb i j then add_bond i j b' else b') js b) = length b
   \<and> (c \<in> set (fold (\<lambda>j b'. if nb i j then add_bond i j b' else b') js b ! a)
       \<longleftrightarrow> c \<in> set (b ! a) \<or> (a = i \<and> c \<in> set js \<and> nb i c) \<or> (c = i \<and> a \<in> set js \<and> nb i a))"
proof (induction js arbitrary: b)
  case Nil
  show ?case by simp
next
  case (Cons j js)
  let ?b = "if nb i j then add_bond i j b else b"
  have l: "length ?b = length b" by (simp add: length_add_bond)
  from Cons.prems have ij: "i < length b" "j < length b" by simp_all
  have s: "c \<in> set (?b ! a) \<longleftrightarrow> c \<in> set (b ! a) \<or> (a = i \<and> c = j \<and> nb i j) \<or> (c = i \<and> a = j \<and> nb i j)"
    using in_add_bond [OF ij, of c a] by (cases "nb i j") auto
  from Cons.prems l have "i < length ?b" "\<forall>j\<in>set js. j < length ?b" by simp_all
  from Cons.IH [OF this]
  have IH: "length (fold (\<lambda>j b'. if nb i j then add_bond i j b' else b') js ?b) = length ?b"
    "c \<in> set (fold (\<lambda>j b'. if nb i j then add_bond i j b' else b') js ?b ! a)
       \<longleftrightarrow> c \<in> set (?b ! a) \<or> (a = i \<and> c \<in> set js \<and> nb i c) \<or> (c = i \<and> a \<in> set js \<and> nb i a)"
    by blast+
  have f: "fold (\<lambda>j b'. if nb i j then add_bond i j b' else b') (j # js) b
      = fold (\<lambda>j b'. if nb i j then add_bond i j b' else b') js ?b"
    by simp
  show ?case
    unfolding f IH(1) l IH(2) s by (simp only: set_simps insert_iff) blast
qed

lemma bonds_outer:
  "\<forall>i\<in>set is. i < length b \<Longrightarrow> hi \<le> length b \<Longrightarrow>
   length (fold (\<lambda>i b. fold (\<lambda>j b'. if nb i j then add_bond i j b' else b') [i + 1..<hi] b) is b) = length b
   \<and> (c \<in> set (fold (\<lambda>i b. fold (\<lambda>j b'. if nb i j then add_bond i j b' else b') [i + 1..<hi] b) is b ! a)
       \<longleftrightarrow> c \<in> set (b ! a) \<or> (a \<in> set is \<and> a < c \<and> c < hi \<and> nb a c) \<or> (c \<in> set is \<and> c < a \<and> a < hi \<and> nb c a))"
proof (induction "is" arbitrary: b)
  case Nil
  show ?case by simp
next
  case (Cons i "is")
  let ?b = "fold (\<lambda>j b'. if nb i j then add_bond i j b' else b') [i + 1..<hi] b"
  from Cons.prems have i: "i < length b" and js: "\<forall>j\<in>set [i + 1..<hi]. j < length b" by auto
  note inner = bonds_inner [OF i js, of nb c a]
  from inner have l: "length ?b = length b" by blast
  from inner have s: "c \<in> set (?b ! a) \<longleftrightarrow> c \<in> set (b ! a) \<or> (a = i \<and> i < c \<and> c < hi \<and> nb i c)
      \<or> (c = i \<and> i < a \<and> a < hi \<and> nb i a)"
    by (simp add: Suc_le_eq)
  from Cons.prems l have "\<forall>i\<in>set is. i < length ?b" "hi \<le> length ?b" by simp_all
  from Cons.IH [OF this]
  have IH: "length (fold (\<lambda>i b. fold (\<lambda>j b'. if nb i j then add_bond i j b' else b') [i + 1..<hi] b) is ?b) = length ?b"
    "c \<in> set (fold (\<lambda>i b. fold (\<lambda>j b'. if nb i j then add_bond i j b' else b') [i + 1..<hi] b) is ?b ! a)
       \<longleftrightarrow> c \<in> set (?b ! a) \<or> (a \<in> set is \<and> a < c \<and> c < hi \<and> nb a c) \<or> (c \<in> set is \<and> c < a \<and> a < hi \<and> nb c a)"
    by blast+
  have f: "fold (\<lambda>i b. fold (\<lambda>j b'. if nb i j then add_bond i j b' else b') [i + 1..<hi] b) (i # is) b
      = fold (\<lambda>i b. fold (\<lambda>j b'. if nb i j then add_bond i j b' else b') [i + 1..<hi] b) is ?b"
    by simp
  show ?case
    unfolding f IH(1) l IH(2) s by (simp only: set_simps insert_iff) blast
qed

lemma in_frame_bonds:
  assumes hi: "hi \<le> length b"
  shows "length (frame_bonds ops has lo hi b) = length b"
    and "c \<in> set (frame_bonds ops has lo hi b ! a)
       \<longleftrightarrow> c \<in> set (b ! a) \<or> (lo \<le> a \<and> a < c \<and> c < hi \<and> is_neighbor ops (has ! a) (has ! c))
           \<or> (lo \<le> c \<and> c < a \<and> a < hi \<and> is_neighbor ops (has ! c) (has ! a))"
proof -
  from hi have "\<forall>i\<in>set [lo..<hi]. i < length b" by simp
  note o = bonds_outer [OF this hi, of "\<lambda>i j. is_neighbor ops (has ! i) (has ! j)" c a]
  from o show "length (frame_bonds ops has lo hi b) = length b"
    unfolding frame_bonds_def by blast
  from o have "c \<in> set (frame_bonds ops has lo hi b ! a)
       \<longleftrightarrow> c \<in> set (b ! a) \<or> (a \<in> set [lo..<hi] \<and> a < c \<and> c < hi \<and> is_neighbor ops (has ! a) (has ! c))
           \<or> (c \<in> set [lo..<hi] \<and> c < a \<and> a < hi \<and> is_neighbor ops (has ! c) (has ! a))"
    unfolding frame_bonds_def by blast
  then show "c \<in> set (frame_bonds ops has lo hi b ! a)
       \<longleftrightarrow> c \<in> set (b ! a) \<or> (lo \<le> a \<and> a < c \<and> c < hi \<and> is_neighbor ops (has ! a) (has ! c))
           \<or> (lo \<le> c \<and> c < a \<and> a < hi \<and> is_neighbor ops (has ! c) (has ! a))"
    by (simp only: set_upt atLeastLessThan_iff) (metis less_trans)
qed


lemma bonded_iff: "bonded ops fs has a c \<longleftrightarrow> (\<exists>k<length fs. bond_of_frame ops fs has k a c)"
  by (rule bonded_def)

lemma bonds_step:
  assumes "haend (fs ! k) \<le> length b"
    and "k \<noteq> 0 \<longrightarrow> rotorX (fs ! k) < length b \<and> rotorY (fs ! k) < length b"
  shows "length (let f = fs ! k; b1 = frame_bonds ops has (habegin f) (haend f) b
                 in if k \<noteq> 0 then add_bond (rotorY f) (rotorX f) b1 else b1) = length b"
    and "c \<in> set ((let f = fs ! k; b1 = frame_bonds ops has (habegin f) (haend f) b
                 in if k \<noteq> 0 then add_bond (rotorY f) (rotorX f) b1 else b1) ! a)
         \<longleftrightarrow> c \<in> set (b ! a) \<or> bond_of_frame ops fs has k a c"
proof -
  let ?b1 = "frame_bonds ops has (habegin (fs ! k)) (haend (fs ! k)) b"
  note fb = in_frame_bonds [OF assms(1), where ops = ops and has = has and lo = "habegin (fs ! k)"]
  show "length (let f = fs ! k; b1 = frame_bonds ops has (habegin f) (haend f) b
                 in if k \<noteq> 0 then add_bond (rotorY f) (rotorX f) b1 else b1) = length b"
    using fb(1) by (cases "k = 0") (simp_all add: Let_def length_add_bond)
  show "c \<in> set ((let f = fs ! k; b1 = frame_bonds ops has (habegin f) (haend f) b
                 in if k \<noteq> 0 then add_bond (rotorY f) (rotorX f) b1 else b1) ! a)
         \<longleftrightarrow> c \<in> set (b ! a) \<or> bond_of_frame ops fs has k a c"
  proof (cases "k = 0")
    case True
    then show ?thesis
      using fb(2) [of c a] by (simp add: Let_def bond_of_frame_def)
  next
    case False
    with assms(2) have r: "rotorY (fs ! k) < length ?b1" "rotorX (fs ! k) < length ?b1"
      by (simp_all add: fb(1))
    from False show ?thesis
      unfolding Let_def bond_of_frame_def
      by (simp only: if_True in_add_bond [OF r] fb(2) simp_thms) blast
  qed
qed

lemma bonds_frames:
  "\<forall>k\<in>set ks. haend (fs ! k) \<le> length b
      \<and> (k \<noteq> 0 \<longrightarrow> rotorX (fs ! k) < length b \<and> rotorY (fs ! k) < length b) \<Longrightarrow>
   length (fold (\<lambda>k b. (let f = fs ! k; b1 = frame_bonds ops has (habegin f) (haend f) b
                        in if k \<noteq> 0 then add_bond (rotorY f) (rotorX f) b1 else b1)) ks b) = length b
   \<and> (c \<in> set (fold (\<lambda>k b. (let f = fs ! k; b1 = frame_bonds ops has (habegin f) (haend f) b
                        in if k \<noteq> 0 then add_bond (rotorY f) (rotorX f) b1 else b1)) ks b ! a)
       \<longleftrightarrow> c \<in> set (b ! a) \<or> (\<exists>k\<in>set ks. bond_of_frame ops fs has k a c))"
proof (induction ks arbitrary: b)
  case Nil
  show ?case by simp
next
  case (Cons k ks)
  let ?H = "\<lambda>k b. (let f = fs ! k; b1 = frame_bonds ops has (habegin f) (haend f) b
                        in if k \<noteq> 0 then add_bond (rotorY f) (rotorX f) b1 else b1)"
  define b' where "b' = ?H k b"
  from Cons.prems have k: "haend (fs ! k) \<le> length b"
      "k \<noteq> 0 \<longrightarrow> rotorX (fs ! k) < length b \<and> rotorY (fs ! k) < length b"
    by simp_all
  note st = bonds_step [OF k, where ops = ops and has = has]
  have l: "length b' = length b" unfolding b'_def by (rule st(1))
  have s: "c \<in> set (b' ! a) \<longleftrightarrow> c \<in> set (b ! a) \<or> bond_of_frame ops fs has k a c"
    unfolding b'_def by (rule st(2))
  from Cons.prems have "\<forall>k\<in>set ks. haend (fs ! k) \<le> length b'
      \<and> (k \<noteq> 0 \<longrightarrow> rotorX (fs ! k) < length b' \<and> rotorY (fs ! k) < length b')"
    unfolding l by simp
  from Cons.IH [OF this]
  have IH: "length (fold ?H ks b') = length b'"
    "c \<in> set (fold ?H ks b' ! a) \<longleftrightarrow> c \<in> set (b' ! a) \<or> (\<exists>k\<in>set ks. bond_of_frame ops fs has k a c)"
    by blast+
  have f: "fold ?H (k # ks) b = fold ?H ks b'" unfolding b'_def by simp
  show ?case
    unfolding f IH(1) l IH(2) s by (simp only: set_simps bex_simps) blast
qed

lemma in_build_bonds:
  assumes "\<forall>k<length fs. haend (fs ! k) \<le> length has
      \<and> (k \<noteq> 0 \<longrightarrow> rotorX (fs ! k) < length has \<and> rotorY (fs ! k) < length has)"
    and "a < length has"
  shows "c \<in> set (build_bonds ops fs has ! a) \<longleftrightarrow> bonded ops fs has a c"
proof -
  from assms(1) have "\<forall>k\<in>set [0..<length fs]. haend (fs ! k) \<le> length (replicate (length has) ([]::nat list))
      \<and> (k \<noteq> 0 \<longrightarrow> rotorX (fs ! k) < length (replicate (length has) ([]::nat list))
                  \<and> rotorY (fs ! k) < length (replicate (length has) ([]::nat list)))"
    by simp
  from bonds_frames [OF this, where ops = ops and has = has and c = c and a = a] assms(2) show ?thesis
    unfolding build_bonds_def bonded_iff by (simp add: Bex_def)
qed


lemma bonded_less:
  assumes "\<forall>k<length fs. haend (fs ! k) \<le> length has
      \<and> (k \<noteq> 0 \<longrightarrow> rotorX (fs ! k) < length has \<and> rotorY (fs ! k) < length has)"
    and "bonded ops fs has a c"
  shows "c < length has"
proof -
  from assms(2) obtain k where k: "k < length fs" "bond_of_frame ops fs has k a c"
    unfolding bonded_def by blast
  from assms(1) k(1) have h: "haend (fs ! k) \<le> length has"
    "k \<noteq> 0 \<longrightarrow> rotorX (fs ! k) < length has \<and> rotorY (fs ! k) < length has"
    by blast+
  from k(2) h show ?thesis
    unfolding bond_of_frame_def by auto
qed

lemma within3_build_bonds:
  assumes H: "\<forall>k<length fs. haend (fs ! k) \<le> length has
      \<and> (k \<noteq> 0 \<longrightarrow> rotorX (fs ! k) < length has \<and> rotorY (fs ! k) < length has)"
    and i: "i < length has"
  shows "within3 (\<lambda>a b. b \<in> set (build_bonds ops fs has ! a)) i j \<longleftrightarrow> within3 (bonded ops fs has) i j"
proof -
  have eq: "c \<in> set (build_bonds ops fs has ! a) \<longleftrightarrow> bonded ops fs has a c" if "a < length has" for a c
    using in_build_bonds [OF H that] .
  have lt: "c < length has" if "bonded ops fs has a c" for a c
    using bonded_less [OF H that] .
  show ?thesis
  proof
    assume "within3 (\<lambda>a b. b \<in> set (build_bonds ops fs has ! a)) i j"
    then consider "j \<in> set (build_bonds ops fs has ! i)"
      | b1 where "b1 \<in> set (build_bonds ops fs has ! i)" "j \<in> set (build_bonds ops fs has ! b1)"
      | b1 b2 where "b1 \<in> set (build_bonds ops fs has ! i)" "b2 \<in> set (build_bonds ops fs has ! b1)"
          "j \<in> set (build_bonds ops fs has ! b2)"
      unfolding within3_def by blast
    then show "within3 (bonded ops fs has) i j"
    proof cases
      case 1
      with eq [OF i] show ?thesis unfolding within3_def by blast
    next
      case 2
      from 2(1) eq [OF i] have a: "bonded ops fs has i b1" by blast
      from 2(2) eq [OF lt [OF a]] have "bonded ops fs has b1 j" by blast
      with a show ?thesis unfolding within3_def by blast
    next
      case 3
      from 3(1) eq [OF i] have a: "bonded ops fs has i b1" by blast
      from 3(2) eq [OF lt [OF a]] have b: "bonded ops fs has b1 b2" by blast
      from 3(3) eq [OF lt [OF b]] have "bonded ops fs has b2 j" by blast
      with a b show ?thesis unfolding within3_def by blast
    qed
  next
    assume "within3 (bonded ops fs has) i j"
    then consider "bonded ops fs has i j"
      | b1 where "bonded ops fs has i b1" "bonded ops fs has b1 j"
      | b1 b2 where "bonded ops fs has i b1" "bonded ops fs has b1 b2" "bonded ops fs has b2 j"
      unfolding within3_def by blast
    then show "within3 (\<lambda>a b. b \<in> set (build_bonds ops fs has ! a)) i j"
    proof cases
      case 1
      with eq [OF i] show ?thesis unfolding within3_def by blast
    next
      case 2
      from 2(1) eq [OF i] have a: "b1 \<in> set (build_bonds ops fs has ! i)" by blast
      from 2(2) eq [OF lt [OF 2(1)]] have "j \<in> set (build_bonds ops fs has ! b1)" by blast
      with a show ?thesis unfolding within3_def by blast
    next
      case 3
      from 3(1) eq [OF i] have a: "b1 \<in> set (build_bonds ops fs has ! i)" by blast
      from 3(2) eq [OF lt [OF 3(1)]] have b: "b2 \<in> set (build_bonds ops fs has ! b1)" by blast
      from 3(3) eq [OF lt [OF 3(2)]] have "j \<in> set (build_bonds ops fs has ! b2)" by blast
      with a b show ?thesis unfolding within3_def by blast
    qed
  qed
qed

lemma frames_ordered:
  assumes "\<forall>k. Suc k < length fs \<longrightarrow> haend (fs ! k) \<le> habegin (fs ! Suc k)"
    and "\<forall>k<length fs. habegin (fs ! k) \<le> haend (fs ! k)"
  shows "k1 < k2 \<Longrightarrow> k2 < length fs \<Longrightarrow> haend (fs ! k1) \<le> habegin (fs ! k2)"
proof (induction k2)
  case 0
  then show ?case by simp
next
  case (Suc k2)
  show ?case
  proof (cases "k1 = k2")
    case True
    with assms(1) Suc.prems show ?thesis by blast
  next
    case False
    with Suc.prems have "k1 < k2" "k2 < length fs" by simp_all
    from Suc.IH [OF this] have "haend (fs ! k1) \<le> habegin (fs ! k2)" .
    also from assms(2) \<open>k2 < length fs\<close> have "\<dots> \<le> haend (fs ! k2)" by blast
    also from assms(1) Suc.prems(2) have "\<dots> \<le> habegin (fs ! Suc k2)" by blast
    finally show ?thesis .
  qed
qed

lemma find_pairs_char:
  assumes H: "\<forall>k<length fs. haend (fs ! k) \<le> length has
      \<and> (k \<noteq> 0 \<longrightarrow> rotorX (fs ! k) < length has \<and> rotorY (fs ! k) < length has)"
    and ord: "\<forall>k. Suc k < length fs \<longrightarrow> haend (fs ! k) \<le> habegin (fs ! Suc k)"
    and ne: "\<forall>k<length fs. habegin (fs ! k) \<le> haend (fs ! k)"
  shows "p \<in> set (find_pairs fs has (build_bonds ops fs has)) \<longleftrightarrow>
     (\<exists>k1 i k2 j. k1 < k2 \<and> k2 < length fs
        \<and> habegin (fs ! k1) \<le> i \<and> i < haend (fs ! k1)
        \<and> habegin (fs ! k2) \<le> j \<and> j < haend (fs ! k2)
        \<and> \<not> (k1 = parent (fs ! k2) \<and> (j = rotorY (fs ! k2) \<or> i = rotorX (fs ! k2)))
        \<and> \<not> within3 (bonded ops fs has) i j
        \<and> p = \<lparr>i1 = i, i2 = j, type_pair_index = mp (xs (has ! i)) (xs (has ! j))\<rparr>)"
    and "p \<in> set (find_pairs fs has (build_bonds ops fs has)) \<Longrightarrow> i1 p < i2 p"
proof -
  have w: "within3 (\<lambda>a b. b \<in> set (build_bonds ops fs has ! a)) i j \<longleftrightarrow> within3 (bonded ops fs has) i j"
    if "k1 < length fs" "i < haend (fs ! k1)" for i j k1
  proof -
    from H that(1) have "haend (fs ! k1) \<le> length has" by blast
    with that(2) have "i < length has" by simp
    from within3_build_bonds [OF H this] show ?thesis .
  qed
  show "p \<in> set (find_pairs fs has (build_bonds ops fs has)) \<longleftrightarrow>
     (\<exists>k1 i k2 j. k1 < k2 \<and> k2 < length fs
        \<and> habegin (fs ! k1) \<le> i \<and> i < haend (fs ! k1)
        \<and> habegin (fs ! k2) \<le> j \<and> j < haend (fs ! k2)
        \<and> \<not> (k1 = parent (fs ! k2) \<and> (j = rotorY (fs ! k2) \<or> i = rotorX (fs ! k2)))
        \<and> \<not> within3 (bonded ops fs has) i j
        \<and> p = \<lparr>i1 = i, i2 = j, type_pair_index = mp (xs (has ! i)) (xs (has ! j))\<rparr>)"
    unfolding in_find_pairs
  proof (intro iffI; elim exE conjE)
    fix k1 i k2 j
    assume a: "k1 < k2" "k2 < length fs" "habegin (fs ! k1) \<le> i" "i < haend (fs ! k1)"
      "habegin (fs ! k2) \<le> j" "j < haend (fs ! k2)"
      "\<not> (k1 = parent (fs ! k2) \<and> (j = rotorY (fs ! k2) \<or> i = rotorX (fs ! k2)))"
      "\<not> within3 (\<lambda>a b. b \<in> set (build_bonds ops fs has ! a)) i j"
      "p = \<lparr>i1 = i, i2 = j, type_pair_index = mp (xs (has ! i)) (xs (has ! j))\<rparr>"
    from a(1,2) have "k1 < length fs" by simp
    from w [OF this a(4)] a(8) have "\<not> within3 (bonded ops fs has) i j" by blast
    with a show "\<exists>k1 i k2 j. k1 < k2 \<and> k2 < length fs
        \<and> habegin (fs ! k1) \<le> i \<and> i < haend (fs ! k1)
        \<and> habegin (fs ! k2) \<le> j \<and> j < haend (fs ! k2)
        \<and> \<not> (k1 = parent (fs ! k2) \<and> (j = rotorY (fs ! k2) \<or> i = rotorX (fs ! k2)))
        \<and> \<not> within3 (bonded ops fs has) i j
        \<and> p = \<lparr>i1 = i, i2 = j, type_pair_index = mp (xs (has ! i)) (xs (has ! j))\<rparr>"
      by blast
  next
    fix k1 i k2 j
    assume a: "k1 < k2" "k2 < length fs" "habegin (fs ! k1) \<le> i" "i < haend (fs ! k1)"
      "habegin (fs ! k2) \<le> j" "j < haend (fs ! k2)"
      "\<not> (k1 = parent (fs ! k2) \<and> (j = rotorY (fs ! k2) \<or> i = rotorX (fs ! k2)))"
      "\<not> within3 (bonded ops fs has) i j"
      "p = \<lparr>i1 = i, i2 = j, type_pair_index = mp (xs (has ! i)) (xs (has ! j))\<rparr>"
    from a(1,2) have "k1 < length fs" by simp
    from w [OF this a(4)] a(8) have "\<not> within3 (\<lambda>a b. b \<in> set (build_bonds ops fs has ! a)) i j" by blast
    with a show "\<exists>k1 i k2 j. k1 < k2 \<and> k2 < length fs
        \<and> habegin (fs ! k1) \<le> i \<and> i < haend (fs ! k1)
        \<and> habegin (fs ! k2) \<le> j \<and> j < haend (fs ! k2)
        \<and> \<not> (k1 = parent (fs ! k2) \<and> (j = rotorY (fs ! k2) \<or> i = rotorX (fs ! k2)))
        \<and> \<not> within3 (\<lambda>a b. b \<in> set (build_bonds ops fs has ! a)) i j
        \<and> p = \<lparr>i1 = i, i2 = j, type_pair_index = mp (xs (has ! i)) (xs (has ! j))\<rparr>"
      by blast
  qed
  show "i1 p < i2 p" if "p \<in> set (find_pairs fs has (build_bonds ops fs has))"
  proof -
    from that obtain k1 i k2 j where a: "k1 < k2" "k2 < length fs" "i < haend (fs ! k1)"
      "habegin (fs ! k2) \<le> j"
      "p = \<lparr>i1 = i, i2 = j, type_pair_index = mp (xs (has ! i)) (xs (has ! j))\<rparr>"
      unfolding in_find_pairs by blast
    from frames_ordered [OF ord ne a(1,2)] a(3,4) have "i < j" by simp
    with a(5) show ?thesis by simp
  qed
qed

lemma frames_inv_mono: "frames_inv fs n \<Longrightarrow> n \<le> n' \<Longrightarrow> frames_inv fs n'"
  unfolding frames_inv_def by (meson le_trans less_le_trans)

lemma length_donor_scan: "length (donor_scan ops a is has) = length has"
  by (induction "is") (simp_all add: Let_def)

lemma find_in_set: "List.find P ys = Some y \<Longrightarrow> y \<in> set ys"
  by (induction ys) (simp_all split: if_splits)

lemma find_number_less: "find_number ns from x = Some i \<Longrightarrow> i < length ns"
  unfolding find_number_def by (drule find_in_set) simp

lemma parser_inv_init: "parser_inv parser_init"
  by (simp add: parser_inv_def parser_init_def frames_inv_def mk_frame_def)

lemma parser_inv_num_lines: "parser_inv (s\<lparr>num_lines := n\<rparr>) = parser_inv s"
  by (simp add: parser_inv_def)

lemma parse_atom_inv:
  assumes "parser_inv s" and "parse_atom ops serial ty c s = Inr s'"
  shows "parser_inv s'"
proof -
  from assms(1) have fi: "frames_inv (p_frames s) (length (p_heavy_atoms s))"
    and o: "p_frames s \<noteq> []" "length (numbers s) = length (p_heavy_atoms s)" "current s < length (p_frames s)"
    unfolding parser_inv_def by simp_all
  from frames_inv_mono [OF fi] have fi': "frames_inv (p_frames s) (Suc (length (p_heavy_atoms s)))"
    by simp
  from assms(2) show ?thesis
    unfolding parse_atom_def Let_def parser_inv_def
    by (auto split: if_splits simp: fi fi' o length_donor_scan)
qed

lemma frames_inv_branch:
  assumes fi: "frames_inv fs n" and ne: "fs \<noteq> []" and c: "c < length fs" and i: "i < n"
    and g: "habegin g = habegin (fs ! (length fs - 1))" "haend g = n" "parent g = parent (fs ! (length fs - 1))"
      "rotorX g = rotorX (fs ! (length fs - 1))" "rotorY g = rotorY (fs ! (length fs - 1))"
  shows "frames_inv ((fs @ [mk_frame c i n h])[length fs - 1 := g]) n"
proof -
  let ?fs = "(fs @ [mk_frame c i n h])[length fs - 1 := g]"
  from ne have l: "length fs - 1 < length fs" by simp
  have len: "length ?fs = Suc (length fs)" by simp
  have last: "?fs ! length fs = mk_frame c i n h"
  proof -
    from ne have "length fs - 1 \<noteq> length fs" by (cases fs) simp_all
    then show ?thesis by simp
  qed
  have upd: "?fs ! (length fs - 1) = g"
    using l by (simp add: nth_append)
  have old: "?fs ! k = fs ! k" if "k < length fs" "k \<noteq> length fs - 1" for k
    using that by (simp add: nth_append)
  have hb: "habegin (?fs ! k) = habegin (fs ! k)" if "k < length fs" for k
    using old [OF that] upd g(1) by (cases "k = length fs - 1") simp_all
  have he: "haend (?fs ! k) = haend (fs ! k)" if "Suc k < length fs" for k
    using old [of k] that by simp
  have pa: "parent (?fs ! k) = parent (fs ! k)" if "k < length fs" for k
    using old [OF that] upd g(3) by (cases "k = length fs - 1") simp_all
  have rx: "rotorX (?fs ! k) = rotorX (fs ! k)" if "k < length fs" for k
    using old [OF that] upd g(4) by (cases "k = length fs - 1") simp_all
  have ry: "rotorY (?fs ! k) = rotorY (fs ! k)" if "k < length fs" for k
    using old [OF that] upd g(5) by (cases "k = length fs - 1") simp_all
  from fi have D: "Suc k < length fs \<Longrightarrow> haend (fs ! k) = habegin (fs ! Suc k) \<and> habegin (fs ! k) \<le> habegin (fs ! Suc k)"
    and E: "k < length fs \<Longrightarrow> habegin (fs ! k) \<le> n \<and> parent (fs ! k) < length fs
            \<and> (k \<noteq> 0 \<longrightarrow> rotorX (fs ! k) < n \<and> rotorY (fs ! k) < n)" for k
    unfolding frames_inv_def by blast+
  show ?thesis
    unfolding frames_inv_def len
  proof (intro conjI allI impI)
    fix k assume k: "Suc k < Suc (length fs)"
    show "haend (?fs ! k) = habegin (?fs ! Suc k)"
    proof (cases "Suc k < length fs")
      case True
      then show ?thesis using he [OF True] hb [of k] hb [of "Suc k"] D [OF True] by simp
    next
      case False
      with k have e: "Suc k = length fs" by simp
      then have "k = length fs - 1" by simp
      with upd g(2) e last show ?thesis by (simp add: mk_frame_def)
    qed
    show "habegin (?fs ! k) \<le> habegin (?fs ! Suc k)"
    proof (cases "Suc k < length fs")
      case True
      then show ?thesis using hb [of k] hb [of "Suc k"] D [OF True] by simp
    next
      case False
      with k have e: "Suc k = length fs" by simp
      then have "k < length fs" by simp
      from hb [OF this] E [OF this] e last show ?thesis by (simp add: mk_frame_def)
    qed
  next
    fix k assume k: "k < Suc (length fs)"
    show "habegin (?fs ! k) \<le> n"
      using k hb [of k] E [of k] last by (cases "k = length fs") (simp_all add: mk_frame_def)
    show "parent (?fs ! k) < Suc (length fs)"
      using k pa [of k] E [of k] last c by (cases "k = length fs") (simp_all add: mk_frame_def)
  next
    fix k assume k: "k < Suc (length fs)" "k \<noteq> 0"
    show "rotorX (?fs ! k) < n"
      using k rx [of k] E [of k] last i by (cases "k = length fs") (simp_all add: mk_frame_def)
    show "rotorY (?fs ! k) < n"
      using k ry [of k] E [of k] last i by (cases "k = length fs") (simp_all add: mk_frame_def)
  qed
qed

lemma parse_branch_inv:
  assumes "parser_inv s" and "parse_branch x s = Inr s'"
  shows "parser_inv s'"
proof -
  from assms(1) have fi: "frames_inv (p_frames s) (length (p_heavy_atoms s))"
    and o: "p_frames s \<noteq> []" "length (numbers s) = length (p_heavy_atoms s)" "current s < length (p_frames s)"
    unfolding parser_inv_def by simp_all
  from assms(2) obtain i where i: "find_number (numbers s) (habegin (p_frames s ! current s)) x = Some i"
    unfolding parse_branch_def by (auto split: option.splits)
  from find_number_less [OF i] o(2) have il: "i < length (p_heavy_atoms s)" by simp
  let ?f = "mk_frame (current s) i (length (p_heavy_atoms s)) (length (p_hydrogens s))"
  let ?l = "length (p_frames s) - 1"
  let ?g = "(p_frames s ! ?l)\<lparr>haend := length (p_heavy_atoms s), hyend := length (p_hydrogens s)\<rparr>"
  from o(1) have l: "?l < length (p_frames s)" by simp
  have s': "s' = s\<lparr>p_frames := (p_frames s @ [?f])[?l := ?g], current := length (p_frames s)\<rparr>"
    using assms(2) l unfolding parse_branch_def i
    by (simp add: Let_def nth_append mk_frame_def)
  have "frames_inv ((p_frames s @ [?f])[?l := ?g]) (length (p_heavy_atoms s))"
    by (rule frames_inv_branch [OF fi o(1) o(3) il]) simp_all
  then show ?thesis
    unfolding s' parser_inv_def using o by simp
qed

lemma frames_inv_update:
  assumes fi: "frames_inv fs n" and c: "c < length fs"
    and g: "habegin g = habegin (fs ! c)" "haend g = haend (fs ! c)" "parent g = parent (fs ! c)"
      "rotorX g = rotorX (fs ! c)" "rotorY g < n"
  shows "frames_inv (fs[c := g]) n"
proof -
  let ?fs = "fs[c := g]"
  have hb: "habegin (?fs ! k) = habegin (fs ! k)" if "k < length fs" for k
    using that g(1) by (cases "k = c") simp_all
  have he: "haend (?fs ! k) = haend (fs ! k)" if "k < length fs" for k
    using that g(2) by (cases "k = c") simp_all
  have pa: "parent (?fs ! k) = parent (fs ! k)" if "k < length fs" for k
    using that g(3) by (cases "k = c") simp_all
  have rx: "rotorX (?fs ! k) = rotorX (fs ! k)" if "k < length fs" for k
    using that g(4) by (cases "k = c") simp_all
  have ry: "rotorY (?fs ! k) < n" if "k < length fs" "rotorY (fs ! k) < n" for k
    using that g(5) by (cases "k = c") simp_all
  from fi have D: "Suc k < length fs \<Longrightarrow> haend (fs ! k) = habegin (fs ! Suc k) \<and> habegin (fs ! k) \<le> habegin (fs ! Suc k)"
    and E: "k < length fs \<Longrightarrow> habegin (fs ! k) \<le> n \<and> parent (fs ! k) < length fs
            \<and> (k \<noteq> 0 \<longrightarrow> rotorX (fs ! k) < n \<and> rotorY (fs ! k) < n)" for k
    unfolding frames_inv_def by blast+
  show ?thesis
    unfolding frames_inv_def length_list_update
  proof (intro conjI allI impI)
    fix k assume k: "Suc k < length fs"
    then have k': "k < length fs" by simp
    from D [OF k] hb [OF k'] hb [OF k] he [OF k']
    show "haend (?fs ! k) = habegin (?fs ! Suc k)" "habegin (?fs ! k) \<le> habegin (?fs ! Suc k)"
      by simp_all
  next
    fix k assume k: "k < length fs"
    from E [OF k] hb [OF k] pa [OF k]
    show "habegin (?fs ! k) \<le> n" "parent (?fs ! k) < length fs" by simp_all
  next
    fix k assume k: "k < length fs" "k \<noteq> 0"
    from E [OF k(1)] k(2) rx [OF k(1)] ry [OF k(1)]
    show "rotorX (?fs ! k) < n" "rotorY (?fs ! k) < n" by simp_all
  qed
qed

lemma parse_endbranch_inv:
  assumes "parser_inv s" and "parse_endbranch y s = Inr s'"
  shows "parser_inv s'"
proof -
  from assms(1) have fi: "frames_inv (p_frames s) (length (p_heavy_atoms s))"
    and o: "p_frames s \<noteq> []" "length (numbers s) = length (p_heavy_atoms s)" "current s < length (p_frames s)"
    unfolding parser_inv_def by simp_all
  let ?f = "p_frames s ! current s"
  from assms(2) obtain i where i: "find_number (numbers s) (habegin ?f) y = Some i"
    unfolding parse_endbranch_def Let_def by (auto split: option.splits if_splits)
  from find_number_less [OF i] o(2) have il: "i < length (p_heavy_atoms s)" by simp
  from fi o(3) have pl: "parent ?f < length (p_frames s)"
    unfolding frames_inv_def by blast
  have a: "frames_inv ((p_frames s)[current s := ?f\<lparr>rotorY := i\<rparr>]) (length (p_heavy_atoms s))"
    by (rule frames_inv_update [OF fi o(3)]) (simp_all add: il)
  have b: "frames_inv ((p_frames s)[current s := ?f\<lparr>rotorY := i, active := False\<rparr>]) (length (p_heavy_atoms s))"
    by (rule frames_inv_update [OF fi o(3)]) (simp_all add: il)
  from assms(2) show ?thesis
    unfolding parse_endbranch_def Let_def i parser_inv_def
    using a b o pl by (auto split: if_splits)
qed

lemma parse_line_inv:
  assumes "parser_inv s" and "parse_line ops l s = Inr s'"
  shows "parser_inv s'"
proof -
  from assms(1) have a: "parser_inv (s\<lparr>num_lines := num_lines s + 1\<rparr>)"
    by (simp only: parser_inv_num_lines)
  show ?thesis
  proof (cases l)
    case (ATOM serial ty c)
    with assms(2) have "parse_atom ops serial ty c (s\<lparr>num_lines := num_lines s + 1\<rparr>) = Inr s'"
      by (simp add: parse_line_def)
    from parse_atom_inv [OF a this] show ?thesis .
  next
    case (BRANCH x y)
    with assms(2) have "parse_branch x (s\<lparr>num_lines := num_lines s + 1\<rparr>) = Inr s'"
      by (simp add: parse_line_def)
    from parse_branch_inv [OF a this] show ?thesis .
  next
    case (ENDBRANCH x y)
    with assms(2) have "parse_endbranch y (s\<lparr>num_lines := num_lines s + 1\<rparr>) = Inr s'"
      by (simp add: parse_line_def)
    from parse_endbranch_inv [OF a this] show ?thesis .
  next
    case KEPT
    with assms(2) a show ?thesis by (simp add: parse_line_def)
  next
    case SKIPPED
    with assms(2) a show ?thesis by (simp add: parse_line_def)
  qed
qed

lemma parse_lines_inv:
  "parser_inv s \<Longrightarrow> parse_lines ops ls s = Inr s' \<Longrightarrow> parser_inv s'"
proof (induction ls arbitrary: s)
  case Nil
  then show ?case by simp
next
  case (Cons l ls)
  from Cons.prems(2) obtain s1 where s1: "parse_line ops l s = Inr s1" "parse_lines ops ls s1 = Inr s'"
    by (auto split: sum.splits)
  from Cons.IH [OF parse_line_inv [OF Cons.prems(1) s1(1)] s1(2)] show ?case .
qed

lemma frames_inv_finish:
  assumes fi: "frames_inv fs n" and ne: "fs \<noteq> []"
  shows "frames_ok (fs[length fs - 1 := (fs ! (length fs - 1))\<lparr>haend := n, hyend := h\<rparr>]) n"
proof -
  let ?l = "length fs - 1"
  let ?fs = "fs[?l := (fs ! ?l)\<lparr>haend := n, hyend := h\<rparr>]"
  from ne have l: "?l < length fs" by simp
  have hb: "habegin (?fs ! k) = habegin (fs ! k)" if "k < length fs" for k
    using that by (cases "k = ?l") simp_all
  have he: "haend (?fs ! k) = haend (fs ! k)" if "Suc k < length fs" for k
    using that by simp
  have hl: "haend (?fs ! ?l) = n"
    using l by simp
  have rx: "rotorX (?fs ! k) = rotorX (fs ! k)" if "k < length fs" for k
    using that by (cases "k = ?l") simp_all
  have ry: "rotorY (?fs ! k) = rotorY (fs ! k)" if "k < length fs" for k
    using that by (cases "k = ?l") simp_all
  from fi have D: "Suc k < length fs \<Longrightarrow> haend (fs ! k) = habegin (fs ! Suc k) \<and> habegin (fs ! k) \<le> habegin (fs ! Suc k)"
    and E: "k < length fs \<Longrightarrow> habegin (fs ! k) \<le> n \<and> parent (fs ! k) < length fs
            \<and> (k \<noteq> 0 \<longrightarrow> rotorX (fs ! k) < n \<and> rotorY (fs ! k) < n)" for k
    unfolding frames_inv_def by blast+
  have cases: "Suc k < length fs \<or> k = ?l" if "k < length fs" for k
    using that by auto
  show ?thesis
    unfolding frames_ok_def length_list_update
  proof (intro conjI allI impI)
    fix k assume k: "k < length fs"
    from cases [OF k] show "haend (?fs ! k) \<le> n"
    proof
      assume s: "Suc k < length fs"
      from he [OF s] D [OF s] E [OF s] show ?thesis by simp
    next
      assume "k = ?l"
      with hl show ?thesis by simp
    qed
    from cases [OF k] show "habegin (?fs ! k) \<le> haend (?fs ! k)"
    proof
      assume s: "Suc k < length fs"
      from he [OF s] D [OF s] hb [OF k] show ?thesis by simp
    next
      assume e: "k = ?l"
      from hb [OF k] E [OF k] hl show ?thesis unfolding e by simp
    qed
  next
    fix k assume k: "k < length fs" "k \<noteq> 0"
    from E [OF k(1)] k(2) rx [OF k(1)] ry [OF k(1)]
    show "rotorX (?fs ! k) < n" "rotorY (?fs ! k) < n" by simp_all
  next
    fix k assume s: "Suc k < length fs"
    from he [OF s] D [OF s] hb [OF s] show "haend (?fs ! k) \<le> habegin (?fs ! Suc k)" by simp
  qed
qed

lemma parse_frames_ok:
  assumes "parse ops ls = Inr s"
  shows "frames_ok (p_frames s) (length (p_heavy_atoms s))"
proof -
  from assms obtain s0 where s0: "parse_lines ops ls parser_init = Inr s0" "parse_finish s0 = Inr s"
    unfolding parse_def by (auto split: sum.splits)
  from parse_lines_inv [OF parser_inv_init s0(1)] have "parser_inv s0" .
  then have fi: "frames_inv (p_frames s0) (length (p_heavy_atoms s0))" and ne: "p_frames s0 \<noteq> []"
    unfolding parser_inv_def by simp_all
  from s0(2) have s: "s = s0\<lparr>p_frames := (p_frames s0)[length (p_frames s0) - 1 :=
      (p_frames s0 ! (length (p_frames s0) - 1))\<lparr>haend := length (p_heavy_atoms s0), hyend := length (p_hydrogens s0)\<rparr>]\<rparr>"
    unfolding parse_finish_def Let_def by (auto split: if_splits)
  from frames_inv_finish [OF fi ne] show ?thesis
    unfolding s by simp
qed

lemma length_dehydro_atoms: "length (dehydro_atoms ops lo hi has) = length has"
proof -
  have inner: "length (fold (\<lambda>j h'. if is_hetero ops (h' ! j) then h'
                                      else if is_neighbor ops (h' ! i) (h' ! j)
                                           then h'[j := dehydrophobicize ops (h' ! j)] else h') js h) = length h"
    for i js h
    by (induction js arbitrary: h) simp_all
  have outer: "length (fold (\<lambda>i h. if \<not> is_hetero ops (h ! i) then h
                  else fold (\<lambda>j h'. if is_hetero ops (h' ! j) then h'
                                      else if is_neighbor ops (h' ! i) (h' ! j)
                                           then h'[j := dehydrophobicize ops (h' ! j)] else h')
                            js h) is has) = length has" for "is" js
    by (induction "is" arbitrary: has) (simp_all add: inner)
  show ?thesis
    unfolding dehydro_atoms_def by (rule outer)
qed

lemma length_dehydro_rotor: "length (dehydro_rotor ops f has) = length has"
  unfolding dehydro_rotor_def by (simp add: Let_def)

lemma length_dehydrophobicize_all: "length (dehydrophobicize_all ops fs has) = length has"
proof -
  have "length (fold (\<lambda>k h. (let f = fs ! k;
                      h1 = dehydro_atoms ops (habegin f) (haend f) h
                  in if k \<noteq> 0 then dehydro_rotor ops f h1 else h1)) ks has) = length has" for ks
    by (induction ks arbitrary: has) (simp_all add: Let_def length_dehydro_atoms length_dehydro_rotor)
  then show ?thesis
    unfolding dehydrophobicize_all_def .
qed

lemma set_rotor_vectors_fields:
  "length (set_rotor_vectors has fs) = length fs"
  "habegin (set_rotor_vectors has fs ! j) = habegin (fs ! j)"
  "haend (set_rotor_vectors has fs ! j) = haend (fs ! j)"
  "parent (set_rotor_vectors has fs ! j) = parent (fs ! j)"
  "rotorX (set_rotor_vectors has fs ! j) = rotorX (fs ! j)"
  "rotorY (set_rotor_vectors has fs ! j) = rotorY (fs ! j)"
proof -
  let ?step = "\<lambda>k fs'. (let f = fs' ! k; p = fs' ! parent f
                    in fs'[k := f\<lparr>yy := vsub (coordinate (has ! rotorY f)) (coordinate (has ! rotorY p)),
                                   xy := normalize3 (vsub (coordinate (has ! rotorY f))
                                                          (coordinate (has ! rotorX f)))\<rparr>])"
  have step: "length (?step k fs') = length fs'
      \<and> habegin (?step k fs' ! j) = habegin (fs' ! j) \<and> haend (?step k fs' ! j) = haend (fs' ! j)
      \<and> parent (?step k fs' ! j) = parent (fs' ! j) \<and> rotorX (?step k fs' ! j) = rotorX (fs' ! j)
      \<and> rotorY (?step k fs' ! j) = rotorY (fs' ! j)" for k and fs' :: "frame list"
  proof (cases "k < length fs'")
    case True
    then show ?thesis by (cases "j = k") (simp_all add: Let_def)
  next
    case False
    then show ?thesis by (simp add: Let_def list_update_beyond)
  qed
  have all: "length (fold ?step ks gs) = length gs
      \<and> habegin (fold ?step ks gs ! j) = habegin (gs ! j) \<and> haend (fold ?step ks gs ! j) = haend (gs ! j)
      \<and> parent (fold ?step ks gs ! j) = parent (gs ! j) \<and> rotorX (fold ?step ks gs ! j) = rotorX (gs ! j)
      \<and> rotorY (fold ?step ks gs ! j) = rotorY (gs ! j)" for ks and gs :: "frame list"
  proof (induction ks arbitrary: gs)
    case Nil
    show ?case by simp
  next
    case (Cons k ks)
    have "fold ?step (k # ks) gs = fold ?step ks (?step k gs)" by simp
    with Cons.IH [of "?step k gs"] step [of gs k] show ?case
      by simp
  qed
  from all [of "[1..<length fs]" fs]
  show "length (set_rotor_vectors has fs) = length fs"
    "habegin (set_rotor_vectors has fs ! j) = habegin (fs ! j)"
    "haend (set_rotor_vectors has fs ! j) = haend (fs ! j)"
    "parent (set_rotor_vectors has fs ! j) = parent (fs ! j)"
    "rotorX (set_rotor_vectors has fs ! j) = rotorX (fs ! j)"
    "rotorY (set_rotor_vectors has fs ! j) = rotorY (fs ! j)"
    unfolding set_rotor_vectors_def by blast+
qed

lemma frames_ok_set_rotor_vectors:
  "frames_ok (set_rotor_vectors has fs) n = frames_ok fs n"
  unfolding frames_ok_def by (simp only: set_rotor_vectors_fields)

lemma ctor_frames_ok:
  assumes "parse ops ls = Inr s"
  shows "frames_ok (set_rotor_vectors (ctor_atoms ops s) (p_frames s)) (length (ctor_atoms ops s))"
  using parse_frames_ok [OF assms]
  by (simp only: frames_ok_set_rotor_vectors ctor_atoms_def length_dehydrophobicize_all)

lemma ex_parse5: "parse ex_ops ex_lines5 = Inr ex_parsed5"
  unfolding ex_lines5_def ex_parsed5_def ex_atoms5_def
  by (simp add: parse_def parse_finish_def parser_init_def parse_line_def parse_atom_def
      parse_branch_def parse_endbranch_def find_number_def mk_frame_def Let_def ex_ops_def)

lemma dehydrophobicize_all_no_hetero:
  assumes "\<forall>a. \<not> is_hetero ops a"
  shows "dehydrophobicize_all ops fs has = has"
proof -
  have da: "dehydro_atoms ops lo hi h = h" for lo hi h
  proof -
    have "fold (\<lambda>i h. if \<not> is_hetero ops (h ! i) then h
                  else fold (\<lambda>j h'. if is_hetero ops (h' ! j) then h'
                                      else if is_neighbor ops (h' ! i) (h' ! j)
                                           then h'[j := dehydrophobicize ops (h' ! j)] else h')
                            [lo..<hi] h) ks h = h" for ks
      by (induction ks) (simp_all add: assms)
    then show ?thesis unfolding dehydro_atoms_def .
  qed
  have dr: "dehydro_rotor ops f h = h" for f h
    unfolding dehydro_rotor_def by (simp add: assms)
  have "fold (\<lambda>k h. (let f = fs ! k;
                      h1 = dehydro_atoms ops (habegin f) (haend f) h
                  in if k \<noteq> 0 then dehydro_rotor ops f h1 else h1)) ks has = has" for ks
    by (induction ks) (simp_all add: da dr)
  then show ?thesis unfolding dehydrophobicize_all_def .
qed

lemma ex_ctor_atoms5: "ctor_atoms ex_ops ex_parsed5 = ex_atoms5"
  unfolding ctor_atoms_def
  by (subst dehydrophobicize_all_no_hetero) (simp_all add: ex_ops_def ex_parsed5_def)

lemma ex_ligand_ctor5: "ligand_ctor ex_ops ex_lines5 = Inr ex_lig5"
proof -
  have "\<not> isl (ligand_ctor ex_ops ex_lines5)"
    unfolding ligand_ctor_def ex_parse5 by (simp add: Let_def)
  then show ?thesis
    unfolding ex_lig5_def by (cases "ligand_ctor ex_ops ex_lines5") simp_all
qed

lemma ex_frames5:
  "frames ex_lig5 = set_rotor_vectors ex_atoms5 (p_frames ex_parsed5)"
  by (simp add: ex_lig5_def ligand_ctor_def ex_parse5 Let_def ex_ctor_atoms5)

lemma ex_frames5_fields:
  "num_frames ex_lig5 = 2"
  "habegin (frames ex_lig5 ! 0) = 0" "haend (frames ex_lig5 ! 0) = 2"
  "habegin (frames ex_lig5 ! Suc 0) = 2" "haend (frames ex_lig5 ! Suc 0) = 5"
  "parent (frames ex_lig5 ! Suc 0) = 0" "rotorX (frames ex_lig5 ! Suc 0) = Suc 0"
  "rotorY (frames ex_lig5 ! Suc 0) = 2"
  unfolding num_frames_def ex_frames5 set_rotor_vectors_fields
  by (simp_all add: ex_parsed5_def)

lemma ex_neighbors5:
  "is_neighbor ex_ops (ex_atoms5 ! 0) (ex_atoms5 ! Suc 0)"
  "is_neighbor ex_ops (ex_atoms5 ! 2) (ex_atoms5 ! 3)"
  "\<not> is_neighbor ex_ops (ex_atoms5 ! 2) (ex_atoms5 ! 4)"
  by (simp_all add: ex_ops_def ex_atoms5_def)

lemma ex_bonded5:
  "bonded ex_ops (frames ex_lig5) ex_atoms5 0 (Suc 0)"
  "bonded ex_ops (frames ex_lig5) ex_atoms5 (Suc 0) 2"
  "bonded ex_ops (frames ex_lig5) ex_atoms5 2 3"
  "bonded ex_ops (frames ex_lig5) ex_atoms5 a c \<Longrightarrow> a = Suc c \<or> c = Suc a"
proof -
  have l: "length (frames ex_lig5) = 2"
    using ex_frames5_fields(1) unfolding num_frames_def .
  have "bond_of_frame ex_ops (frames ex_lig5) ex_atoms5 0 0 (Suc 0)"
    unfolding bond_of_frame_def by (simp add: ex_frames5_fields ex_neighbors5)
  then show "bonded ex_ops (frames ex_lig5) ex_atoms5 0 (Suc 0)"
    unfolding bonded_def l by (intro exI [of _ 0]) simp
  have "bond_of_frame ex_ops (frames ex_lig5) ex_atoms5 (Suc 0) (Suc 0) 2"
    unfolding bond_of_frame_def by (simp add: ex_frames5_fields)
  then show "bonded ex_ops (frames ex_lig5) ex_atoms5 (Suc 0) 2"
    unfolding bonded_def l by (intro exI [of _ "Suc 0"]) simp
  have "bond_of_frame ex_ops (frames ex_lig5) ex_atoms5 (Suc 0) 2 3"
    unfolding bond_of_frame_def by (simp add: ex_frames5_fields ex_neighbors5)
  then show "bonded ex_ops (frames ex_lig5) ex_atoms5 2 3"
    unfolding bonded_def l by (intro exI [of _ "Suc 0"]) simp
  assume "bonded ex_ops (frames ex_lig5) ex_atoms5 a c"
  then obtain k where k: "k < 2" "bond_of_frame ex_ops (frames ex_lig5) ex_atoms5 k a c"
    unfolding bonded_def l by blast
  from k(1) have "k = 0 \<or> k = Suc 0" by auto
  then show "a = Suc c \<or> c = Suc a"
  proof
    assume "k = 0"
    with k(2) show ?thesis
      unfolding bond_of_frame_def by (auto simp: ex_frames5_fields)
  next
    assume k1: "k = Suc 0"
    have n: "is_neighbor ex_ops (ex_atoms5 ! x) (ex_atoms5 ! y) \<Longrightarrow> 2 \<le> x \<Longrightarrow> x < y \<Longrightarrow> y < 5 \<Longrightarrow> y = Suc x" for x y
    proof -
      assume a: "is_neighbor ex_ops (ex_atoms5 ! x) (ex_atoms5 ! y)" "2 \<le> x" "x < y" "y < 5"
      then have "(x = 2 \<and> y = 4) \<or> y = Suc x" by auto
      with a(1) ex_neighbors5(3) show "y = Suc x" by auto
    qed
    from k(2) n [of a c] n [of c a] show ?thesis
      unfolding bond_of_frame_def k1 by (auto simp: ex_frames5_fields)
  qed
qed

lemma ex_not_within3:
  "\<not> within3 (bonded ex_ops (frames ex_lig5) ex_atoms5) 0 4"
  unfolding within3_def by (auto dest!: ex_bonded5(4))

lemma ex_within3:
  "within3 (bonded ex_ops (frames ex_lig5) ex_atoms5) 0 3"
  unfolding within3_def using ex_bonded5(1,2,3) by blast

text \<open>
  Claim C6. After the constructor has returned the ligand, its interacting pairs are exactly
  the triples \<open>(i, j, type_pair_index)\<close> with heavy atom \<open>i\<close> in a frame \<open>k1\<close> and heavy atom \<open>j\<close>
  in a later frame \<open>k2\<close>, except where \<open>j\<close> is within three bonds of \<open>i\<close> in the bond graph
  (the neighbor pairs within a frame and the bond from \<open>rotorX\<close> to \<open>rotorY\<close> of every BRANCH
  frame), and except where \<open>k1\<close> is the parent of \<open>k2\<close> and \<open>j\<close> is the \<open>rotorY\<close> or \<open>i\<close> the
  \<open>rotorX\<close> of \<open>k2\<close>; and every stored pair has \<open>i1 < i2\<close>. The atoms are the heavy atoms as
  they are when the pairs are computed, \<open>ctor_atoms\<close>.
\<close>

theorem interacting_pairs_exact:
  assumes "ligand_ctor ops ls = Inr lig" and "parse ops ls = Inr s"
  shows "(\<forall>p. p \<in> set (interacting_pairs lig) \<longleftrightarrow>
     (\<exists>k1 i k2 j. k1 < k2 \<and> k2 < num_frames lig
        \<and> habegin (frames lig ! k1) \<le> i \<and> i < haend (frames lig ! k1)
        \<and> habegin (frames lig ! k2) \<le> j \<and> j < haend (frames lig ! k2)
        \<and> \<not> (k1 = parent (frames lig ! k2) \<and> (j = rotorY (frames lig ! k2) \<or> i = rotorX (frames lig ! k2)))
        \<and> \<not> within3 (bonded ops (frames lig) (ctor_atoms ops s)) i j
        \<and> p = \<lparr>i1 = i, i2 = j,
                 type_pair_index = mp (xs (ctor_atoms ops s ! i)) (xs (ctor_atoms ops s ! j))\<rparr>))
   \<and> (\<forall>p \<in> set (interacting_pairs lig). i1 p < i2 p)"
proof -
  let ?has = "ctor_atoms ops s"
  let ?fs = "set_rotor_vectors ?has (p_frames s)"
  from assms have fr: "frames lig = ?fs"
    and ip: "interacting_pairs lig = find_pairs ?fs ?has (build_bonds ops ?fs ?has)"
    unfolding ligand_ctor_def by (auto simp: Let_def)
  from ctor_frames_ok [OF assms(2)] have ok: "frames_ok ?fs (length ?has)" .
  then have H: "\<forall>k<length ?fs. haend (?fs ! k) \<le> length ?has
      \<and> (k \<noteq> 0 \<longrightarrow> rotorX (?fs ! k) < length ?has \<and> rotorY (?fs ! k) < length ?has)"
    and ord: "\<forall>k. Suc k < length ?fs \<longrightarrow> haend (?fs ! k) \<le> habegin (?fs ! Suc k)"
    and ne: "\<forall>k<length ?fs. habegin (?fs ! k) \<le> haend (?fs ! k)"
    unfolding frames_ok_def by blast+
  show ?thesis
    unfolding fr ip num_frames_def ligand.simps
    using find_pairs_char [OF H ord ne] by blast
qed

theorem interacting_pairs_exact_witness:
  "parse ex_ops ex_lines5 = Inr ex_parsed5 \<and> ligand_ctor ex_ops ex_lines5 = Inr ex_lig5
   \<and> \<lparr>i1 = 0, i2 = 4, type_pair_index = 0\<rparr> \<in> set (interacting_pairs ex_lig5)
   \<and> \<lparr>i1 = 0, i2 = 3, type_pair_index = 0\<rparr> \<notin> set (interacting_pairs ex_lig5)"
proof (intro conjI)
  show "parse ex_ops ex_lines5 = Inr ex_parsed5" by (rule ex_parse5)
  show "ligand_ctor ex_ops ex_lines5 = Inr ex_lig5" by (rule ex_ligand_ctor5)
  note char = interacting_pairs_exact [OF ex_ligand_ctor5 ex_parse5, unfolded ex_ctor_atoms5, THEN conjunct1, rule_format]
  have "0 < Suc 0 \<and> Suc 0 < num_frames ex_lig5
        \<and> habegin (frames ex_lig5 ! 0) \<le> 0 \<and> 0 < haend (frames ex_lig5 ! 0)
        \<and> habegin (frames ex_lig5 ! Suc 0) \<le> 4 \<and> 4 < haend (frames ex_lig5 ! Suc 0)
        \<and> \<not> (0 = parent (frames ex_lig5 ! Suc 0) \<and> (4 = rotorY (frames ex_lig5 ! Suc 0) \<or> 0 = rotorX (frames ex_lig5 ! Suc 0)))
        \<and> \<not> within3 (bonded ex_ops (frames ex_lig5) ex_atoms5) 0 4
        \<and> \<lparr>i1 = 0, i2 = 4, type_pair_index = 0\<rparr> = \<lparr>i1 = 0, i2 = 4,
                 type_pair_index = mp (xs (ex_atoms5 ! 0)) (xs (ex_atoms5 ! 4))\<rparr>"
    using ex_not_within3 by (simp add: ex_frames5_fields ex_atoms5_def mp_def mr_def)
  then show "\<lparr>i1 = 0, i2 = 4, type_pair_index = 0\<rparr> \<in> set (interacting_pairs ex_lig5)"
    unfolding char by blast
  show "\<lparr>i1 = 0, i2 = 3, type_pair_index = 0\<rparr> \<notin> set (interacting_pairs ex_lig5)"
  proof
    assume "\<lparr>i1 = 0, i2 = 3, type_pair_index = 0\<rparr> \<in> set (interacting_pairs ex_lig5)"
    then obtain i j where "\<not> within3 (bonded ex_ops (frames ex_lig5) ex_atoms5) i j"
      "\<lparr>i1 = 0, i2 = 3, type_pair_index = 0\<rparr> = \<lparr>i1 = i, i2 = j,
                 type_pair_index = mp (xs (ex_atoms5 ! i)) (xs (ex_atoms5 ! j))\<rparr>"
      unfolding char by blast
    with ex_within3 show False by simp
  qed
qed

subsection \<open>Two runs of monte\_carlo\_task\<close>

text \<open>
  evaluate decides from the conformation alone, writes \<open>e\<close> and \<open>f\<close> whenever it accepts, and
  of \<open>g\<close> keeps only the torsion entries it does not write; so each loop of the task takes
  runs that agree on the variables read to runs that agree on them, and more fuel does not
  change what a loop returns.
\<close>

lemma eval_gradient_alike:
  "g_torsions g = g_torsions g' \<Longrightarrow> eval_gradient lig s d g = eval_gradient lig s d g'"
  by (cases g; cases g') (simp add: eval_gradient_def split: prod.splits)

lemma evaluate_flag:
  "fst (evaluate lig c sf b maps bound efg) = fst (evaluate lig c sf b maps bound efg')"
  by (cases "eval_kinematics lig c b") (simp_all add: evaluate_def Let_def)

lemma evaluate_ef:
  assumes "fst (evaluate lig c sf b maps bound efg)"
  shows "fst (snd (evaluate lig c sf b maps bound efg)) = fst (snd (evaluate lig c sf b maps bound efg'))"
    and "fst (snd (snd (evaluate lig c sf b maps bound efg))) = fst (snd (snd (evaluate lig c sf b maps bound efg')))"
proof -
  from assms obtain s where s: "eval_kinematics lig c b = Some s"
    by (cases "eval_kinematics lig c b") (simp_all add: evaluate_def)
  show "fst (snd (evaluate lig c sf b maps bound efg)) = fst (snd (evaluate lig c sf b maps bound efg'))"
    by (simp add: evaluate_def s Let_def)
  show "fst (snd (snd (evaluate lig c sf b maps bound efg))) = fst (snd (snd (evaluate lig c sf b maps bound efg')))"
    by (simp add: evaluate_def s Let_def)
qed

lemma evaluate_g:
  assumes "g_torsions (snd (snd efg)) = g_torsions (snd (snd efg'))"
  shows "g_torsions (snd (snd (snd (evaluate lig c sf b maps bound efg))))
       = g_torsions (snd (snd (snd (evaluate lig c sf b maps bound efg'))))"
    and "fst (evaluate lig c sf b maps bound efg) \<Longrightarrow>
       snd (snd (snd (evaluate lig c sf b maps bound efg))) = snd (snd (snd (evaluate lig c sf b maps bound efg')))"
proof -
  note eg = eval_gradient_alike [OF assms]
  show "g_torsions (snd (snd (snd (evaluate lig c sf b maps bound efg))))
       = g_torsions (snd (snd (snd (evaluate lig c sf b maps bound efg'))))"
  proof (cases "eval_kinematics lig c b")
    case None
    with assms show ?thesis by (simp add: evaluate_def)
  next
    case (Some s)
    with assms eg show ?thesis by (simp add: evaluate_def Let_def)
  qed
  show "snd (snd (snd (evaluate lig c sf b maps bound efg))) = snd (snd (snd (evaluate lig c sf b maps bound efg')))"
    if "fst (evaluate lig c sf b maps bound efg)"
  proof (cases "eval_kinematics lig c b")
    case None
    with that show ?thesis by (simp add: evaluate_def)
  next
    case (Some s)
    with that eg show ?thesis by (simp add: evaluate_def Let_def split: if_splits)
  qed
qed

lemma init_attempt_alike:
  assumes "init_alike v w"
  shows "fst (init_attempt E v) = fst (init_attempt E w)"
    and "init_alike (snd (init_attempt E v)) (snd (init_attempt E w))"
    and "fst (init_attempt E v) \<Longrightarrow> c0 (snd (init_attempt E v)) = c0 (snd (init_attempt E w))
           \<and> e0 (snd (init_attempt E v)) = e0 (snd (init_attempt E w))"
proof -
  from assms have a: "eng v = eng w" "results v = results w" "torsions (c0 v) = torsions (c0 w)"
    "torsions (c2 v) = torsions (c2 w)" "g_torsions (g1 v) = g_torsions (g1 w)"
    "g_torsions (g2 v) = g_torsions (g2 w)"
    unfolding init_alike_def same_constructed_def by simp_all
  have r: "eng (randomize_c0 E v) = eng (randomize_c0 E w)" "c0 (randomize_c0 E v) = c0 (randomize_c0 E w)"
    "results (randomize_c0 E v) = results (randomize_c0 E w)"
    "c2 (randomize_c0 E v) = c2 v" "c2 (randomize_c0 E w) = c2 w"
    "g1 (randomize_c0 E v) = g1 v" "g1 (randomize_c0 E w) = g1 w"
    "g2 (randomize_c0 E v) = g2 v" "g2 (randomize_c0 E w) = g2 w"
    using a by (simp_all add: randomize_c0_def Let_def)
  let ?ev = "\<lambda>u. call_evaluate E (c0 (randomize_c0 E w)) (e_upper_bound (env_lig E))
      (e0 (randomize_c0 E u), f0 (randomize_c0 E u), g0 (randomize_c0 E u))"
  have ia: "init_attempt E v = (fst (?ev v), (randomize_c0 E v)\<lparr>e0 := fst (snd (?ev v)),
      f0 := fst (snd (snd (?ev v))), g0 := snd (snd (snd (?ev v)))\<rparr>)"
    "init_attempt E w = (fst (?ev w), (randomize_c0 E w)\<lparr>e0 := fst (snd (?ev w)),
      f0 := fst (snd (snd (?ev w))), g0 := snd (snd (snd (?ev w)))\<rparr>)"
    unfolding init_attempt_def Let_def case_prod_beta r(2) by simp_all
  have fl: "fst (?ev v) = fst (?ev w)"
    unfolding call_evaluate_def by (rule evaluate_flag)
  show "fst (init_attempt E v) = fst (init_attempt E w)"
    unfolding ia using fl by simp
  show "init_alike (snd (init_attempt E v)) (snd (init_attempt E w))"
    unfolding ia init_alike_def same_constructed_def using r a by simp
  show "c0 (snd (init_attempt E v)) = c0 (snd (init_attempt E w))
           \<and> e0 (snd (init_attempt E v)) = e0 (snd (init_attempt E w))" if "fst (init_attempt E v)"
  proof -
    from that have "fst (?ev v)" unfolding ia by simp
    then have "fst (snd (?ev v)) = fst (snd (?ev w))"
      unfolding call_evaluate_def by (rule evaluate_ef(1))
    then show ?thesis unfolding ia using r by simp
  qed
qed

lemma init_loop_alike:
  "init_alike v w \<Longrightarrow>
     fst (init_loop E n v) = fst (init_loop E n w)
     \<and> init_alike (snd (init_loop E n v)) (snd (init_loop E n w))
     \<and> (fst (init_loop E n v) \<longrightarrow> c0 (snd (init_loop E n v)) = c0 (snd (init_loop E n w))
           \<and> e0 (snd (init_loop E n v)) = e0 (snd (init_loop E n w)))"
proof (induction n arbitrary: v w)
  case 0
  then show ?case by simp
next
  case (Suc n)
  note ia = init_attempt_alike [OF Suc.prems, of E]
  show ?case
  proof (cases "fst (init_attempt E v)")
    case True
    with ia(1) have "fst (init_attempt E w)" by simp
    with True ia(2) ia(3) show ?thesis by (simp add: Let_def)
  next
    case False
    with ia(1) have "\<not> fst (init_attempt E w)" by simp
    with False Suc.IH [OF ia(2)] show ?thesis by (simp add: Let_def)
  qed
qed

lemma iter_alikeD:
  assumes "iter_alike v w"
  shows "eng v = eng w" "results v = results w" "torsions (c2 v) = torsions (c2 w)"
    "g_torsions (g1 v) = g_torsions (g1 w)" "g_torsions (g2 v) = g_torsions (g2 w)"
    "c0 v = c0 w" "e0 v = e0 w" "best_e v = best_e w"
  using assms unfolding iter_alike_def init_alike_def same_constructed_def by simp_all

lemma iter_alikeI:
  assumes "eng v = eng w" "results v = results w" "torsions (c2 v) = torsions (c2 w)"
    "g_torsions (g1 v) = g_torsions (g1 w)" "g_torsions (g2 v) = g_torsions (g2 w)"
    "c0 v = c0 w" "e0 v = e0 w" "best_e v = best_e w"
  shows "iter_alike v w"
  using assms unfolding iter_alike_def init_alike_def same_constructed_def by simp

lemma bfgs_alikeD:
  assumes "bfgs_alike v w"
  shows "iter_alike v w" "c1 v = c1 w" "e1 v = e1 w" "f1 v = f1 w" "g1 v = g1 w"
  using assms unfolding bfgs_alike_def by simp_all

lemma mutate_alike:
  assumes "iter_alike v w"
  shows "iter_alike (mutate E v) (mutate E w)" and "c1 (mutate E v) = c1 (mutate E w)"
    and "e1 (mutate E v) = e1 v" "f1 (mutate E v) = f1 v" "g1 (mutate E v) = g1 v"
    and "e1 (mutate E w) = e1 w" "f1 (mutate E w) = f1 w" "g1 (mutate E w) = g1 w"
proof -
  note a = iter_alikeD [OF assms]
  show "iter_alike (mutate E v) (mutate E w)"
    by (rule iter_alikeI) (simp_all add: mutate_def Let_def case_prod_beta a)
  show "c1 (mutate E v) = c1 (mutate E w)"
    by (simp add: mutate_def Let_def case_prod_beta a)
  show "e1 (mutate E v) = e1 v" "f1 (mutate E v) = f1 v" "g1 (mutate E v) = g1 v"
    "e1 (mutate E w) = e1 w" "f1 (mutate E w) = f1 w" "g1 (mutate E w) = g1 w"
    by (simp_all add: mutate_def Let_def case_prod_beta)
qed

lemma mutate_attempt_alike:
  assumes "iter_alike v w"
  shows "fst (mutate_attempt E v) = fst (mutate_attempt E w)"
    and "iter_alike (snd (mutate_attempt E v)) (snd (mutate_attempt E w))"
    and "fst (mutate_attempt E v) \<Longrightarrow> bfgs_alike (snd (mutate_attempt E v)) (snd (mutate_attempt E w))"
proof -
  note a = iter_alikeD [OF assms]
  note m = mutate_alike [OF assms, of E]
  note mi = iter_alikeD [OF m(1)]
  let ?ev = "\<lambda>u. call_evaluate E (c1 (mutate E w)) (e_upper_bound (env_lig E)) (e1 u, f1 u, g1 u)"
  have ma: "mutate_attempt E v = (fst (?ev v), (mutate E v)\<lparr>e1 := fst (snd (?ev v)),
      f1 := fst (snd (snd (?ev v))), g1 := snd (snd (snd (?ev v)))\<rparr>)"
    "mutate_attempt E w = (fst (?ev w), (mutate E w)\<lparr>e1 := fst (snd (?ev w)),
      f1 := fst (snd (snd (?ev w))), g1 := snd (snd (snd (?ev w)))\<rparr>)"
    unfolding mutate_attempt_def Let_def case_prod_beta m by simp_all
  have fl: "fst (?ev v) = fst (?ev w)"
    unfolding call_evaluate_def by (rule evaluate_flag)
  have gt: "g_torsions (snd (snd (snd (?ev v)))) = g_torsions (snd (snd (snd (?ev w))))"
    unfolding call_evaluate_def by (rule evaluate_g(1)) (simp add: a)
  show "fst (mutate_attempt E v) = fst (mutate_attempt E w)"
    unfolding ma using fl by simp
  show ia: "iter_alike (snd (mutate_attempt E v)) (snd (mutate_attempt E w))"
    unfolding ma by (rule iter_alikeI) (simp_all add: mi gt)
  show "bfgs_alike (snd (mutate_attempt E v)) (snd (mutate_attempt E w))" if "fst (mutate_attempt E v)"
  proof -
    from that have t: "fst (?ev v)" unfolding ma by simp
    have e: "fst (snd (?ev v)) = fst (snd (?ev w))"
      using t unfolding call_evaluate_def by (rule evaluate_ef(1))
    have f: "fst (snd (snd (?ev v))) = fst (snd (snd (?ev w)))"
      using t unfolding call_evaluate_def by (rule evaluate_ef(2))
    have g: "snd (snd (snd (?ev v))) = snd (snd (snd (?ev w)))"
      using t unfolding call_evaluate_def by (rule evaluate_g(2) [rotated]) (simp add: a)
    show ?thesis
      unfolding bfgs_alike_def using ia unfolding ma by (simp add: e f g m(2))
  qed
qed

lemma mutate_loop_alike:
  "iter_alike v w \<Longrightarrow> rel_option bfgs_alike (mutate_loop E n v) (mutate_loop E n w)"
proof (induction n arbitrary: v w)
  case 0
  show ?case by simp
next
  case (Suc n)
  note ma = mutate_attempt_alike [OF Suc.prems, of E]
  show ?case
  proof (cases "fst (mutate_attempt E v)")
    case True
    with ma(1) have "fst (mutate_attempt E w)" by simp
    with True ma(3) show ?thesis by (simp add: Let_def)
  next
    case False
    with ma(1) have "\<not> fst (mutate_attempt E w)" by simp
    with False Suc.IH [OF ma(2)] show ?thesis by (simp add: Let_def)
  qed
qed

lemma bfgs_alikeI:
  assumes "iter_alike v w" "c1 v = c1 w" "e1 v = e1 w" "f1 v = f1 w" "g1 v = g1 w"
  shows "bfgs_alike v w"
  using assms unfolding bfgs_alike_def by simp

lemma line_trial_alike:
  assumes "bfgs_alike v w"
  shows "fst (line_trial E p pg1 alpha v) = fst (line_trial E p pg1 alpha w)"
    and "bfgs_alike (snd (line_trial E p pg1 alpha v)) (snd (line_trial E p pg1 alpha w))"
    and "fst (line_trial E p pg1 alpha v) \<Longrightarrow>
           c2 (snd (line_trial E p pg1 alpha v)) = c2 (snd (line_trial E p pg1 alpha w))
         \<and> e2 (snd (line_trial E p pg1 alpha v)) = e2 (snd (line_trial E p pg1 alpha w))
         \<and> f2 (snd (line_trial E p pg1 alpha v)) = f2 (snd (line_trial E p pg1 alpha w))
         \<and> g2 (snd (line_trial E p pg1 alpha v)) = g2 (snd (line_trial E p pg1 alpha w))"
proof -
  note b = bfgs_alikeD [OF assms]
  note a = iter_alikeD [OF b(1)]
  have sc: "step_c2 E alpha p v = step_c2 E alpha p w"
    by (simp add: step_c2_def a b)
  define c where "c = step_c2 E alpha p w"
  define bd where "bd = e1 w + (1 / 10000) * alpha * pg1"
  let ?c = c
  let ?ev = "\<lambda>u. call_evaluate E c bd (e2 u, f2 u, g2 u)"
  let ?out = "\<lambda>u. u\<lparr>c2 := ?c, e2 := fst (snd (?ev u)), f2 := fst (snd (snd (?ev u))),
      g2 := snd (snd (snd (?ev u)))\<rparr>"
  have lt: "line_trial E p pg1 alpha v =
      (fst (?ev v) \<and> p_dot_g (num_variables (env_lig E)) p (snd (snd (snd (?ev v)))) \<ge> (9 / 10) * pg1, ?out v)"
    "line_trial E p pg1 alpha w =
      (fst (?ev w) \<and> p_dot_g (num_variables (env_lig E)) p (snd (snd (snd (?ev w)))) \<ge> (9 / 10) * pg1, ?out w)"
    unfolding line_trial_def Let_def case_prod_beta sc c_def bd_def by (simp_all add: b)
  have fl: "fst (?ev v) = fst (?ev w)"
    unfolding call_evaluate_def by (rule evaluate_flag)
  have gt: "g_torsions (snd (snd (snd (?ev v)))) = g_torsions (snd (snd (snd (?ev w))))"
    unfolding call_evaluate_def by (rule evaluate_g(1)) (simp add: a)
  have tr: "fst (snd (?ev v)) = fst (snd (?ev w)) \<and> fst (snd (snd (?ev v))) = fst (snd (snd (?ev w)))
      \<and> snd (snd (snd (?ev v))) = snd (snd (snd (?ev w)))" if t: "fst (?ev v)"
  proof (intro conjI)
    show "fst (snd (?ev v)) = fst (snd (?ev w))"
      using t unfolding call_evaluate_def by (rule evaluate_ef(1))
    show "fst (snd (snd (?ev v))) = fst (snd (snd (?ev w)))"
      using t unfolding call_evaluate_def by (rule evaluate_ef(2))
    show "snd (snd (snd (?ev v))) = snd (snd (snd (?ev w)))"
      using t unfolding call_evaluate_def by (rule evaluate_g(2) [rotated]) (simp add: a)
  qed
  show "fst (line_trial E p pg1 alpha v) = fst (line_trial E p pg1 alpha w)"
    unfolding lt using fl tr by auto
  show "bfgs_alike (snd (line_trial E p pg1 alpha v)) (snd (line_trial E p pg1 alpha w))"
    unfolding lt
    by (rule bfgs_alikeI, rule iter_alikeI) (simp_all add: a b gt)
  show "c2 (snd (line_trial E p pg1 alpha v)) = c2 (snd (line_trial E p pg1 alpha w))
         \<and> e2 (snd (line_trial E p pg1 alpha v)) = e2 (snd (line_trial E p pg1 alpha w))
         \<and> f2 (snd (line_trial E p pg1 alpha v)) = f2 (snd (line_trial E p pg1 alpha w))
         \<and> g2 (snd (line_trial E p pg1 alpha v)) = g2 (snd (line_trial E p pg1 alpha w))"
    if "fst (line_trial E p pg1 alpha v)"
  proof -
    from that have "fst (?ev v)" unfolding lt by simp
    from tr [OF this] show ?thesis unfolding lt by simp
  qed
qed

lemma line_search_alike:
  "bfgs_alike v w \<Longrightarrow>
     fst (line_search E p pg1 n alpha v) = fst (line_search E p pg1 n alpha w)
     \<and> fst (snd (line_search E p pg1 n alpha v)) = fst (snd (line_search E p pg1 n alpha w))
     \<and> bfgs_alike (snd (snd (line_search E p pg1 n alpha v))) (snd (snd (line_search E p pg1 n alpha w)))
     \<and> (fst (line_search E p pg1 n alpha v) \<longrightarrow>
           c2 (snd (snd (line_search E p pg1 n alpha v))) = c2 (snd (snd (line_search E p pg1 n alpha w)))
         \<and> e2 (snd (snd (line_search E p pg1 n alpha v))) = e2 (snd (snd (line_search E p pg1 n alpha w)))
         \<and> f2 (snd (snd (line_search E p pg1 n alpha v))) = f2 (snd (snd (line_search E p pg1 n alpha w)))
         \<and> g2 (snd (snd (line_search E p pg1 n alpha v))) = g2 (snd (snd (line_search E p pg1 n alpha w))))"
proof (induction n arbitrary: alpha v w)
  case 0
  then show ?case by simp
next
  case (Suc n)
  note lt = line_trial_alike [OF Suc.prems, of E p pg1 "alpha * (1 / 10)"]
  show ?case
  proof (cases "fst (line_trial E p pg1 (alpha * (1 / 10)) v)")
    case True
    with lt(1) have "fst (line_trial E p pg1 (alpha * (1 / 10)) w)" by simp
    with True lt(2) lt(3) show ?thesis by (simp add: Let_def del: times_divide_eq_right)
  next
    case False
    with lt(1) have "\<not> fst (line_trial E p pg1 (alpha * (1 / 10)) w)" by simp
    with False Suc.IH [OF lt(2), of "alpha * (1 / 10)"] show ?thesis
      by (simp add: Let_def del: times_divide_eq_right)
  qed
qed

lemma bfgs_loop_alike:
  "bfgs_alike v w \<Longrightarrow> rel_option bfgs_alike (bfgs_loop E n h v) (bfgs_loop E n h w)"
proof (induction n arbitrary: h v w)
  case 0
  show ?case by simp
next
  case (Suc n)
  note b = bfgs_alikeD [OF Suc.prems]
  let ?nv = "num_variables (env_lig E)"
  let ?p = "descent_direction ?nv h (g1 w)"
  let ?pg = "p_dot_g ?nv ?p (g1 w)"
  let ?ls = "\<lambda>u. line_search E ?p ?pg num_alphas 1 u"
  note ls = line_search_alike [OF Suc.prems, of E ?p ?pg num_alphas 1]
  let ?next = "\<lambda>u. (snd (snd (?ls u)))\<lparr>c1 := c2 (snd (snd (?ls u))), e1 := e2 (snd (snd (?ls u))),
      f1 := f2 (snd (snd (?ls u))), g1 := g2 (snd (snd (?ls u)))\<rparr>"
  have step: "bfgs_loop E (Suc n) h u =
      (if \<not> fst (?ls u) then Some (snd (snd (?ls u)))
       else bfgs_loop E n (update_hessian ?nv h ?p (fst (snd (?ls u))) (g1 (snd (snd (?ls u)))) (g2 (snd (snd (?ls u)))))
              (?next u))" if "g1 u = g1 w" for u
    by (simp add: Let_def case_prod_beta that)
  show ?case
  proof (cases "fst (?ls v)")
    case False
    with ls have "\<not> fst (?ls w)" by simp
    with False ls show ?thesis
      unfolding step [OF b(5)] step [OF refl] by simp
  next
    case True
    with ls have tw: "fst (?ls w)" by simp
    from ls True have eq: "c2 (snd (snd (?ls v))) = c2 (snd (snd (?ls w)))"
      "e2 (snd (snd (?ls v))) = e2 (snd (snd (?ls w)))"
      "f2 (snd (snd (?ls v))) = f2 (snd (snd (?ls w)))"
      "g2 (snd (snd (?ls v))) = g2 (snd (snd (?ls w)))"
      "fst (snd (?ls v)) = fst (snd (?ls w))"
      "bfgs_alike (snd (snd (?ls v))) (snd (snd (?ls w)))"
      by simp_all
    note b' = bfgs_alikeD [OF eq(6)]
    note a' = iter_alikeD [OF b'(1)]
    have nx: "bfgs_alike (?next v) (?next w)"
      by (rule bfgs_alikeI, rule iter_alikeI) (simp_all add: a' eq)
    from Suc.IH [OF nx] True tw show ?thesis
      unfolding step [OF b(5)] step [OF refl] by (simp add: eq b')
  qed
qed

lemma metropolis_alike:
  assumes "bfgs_alike v w"
  shows "iter_alike (metropolis E v) (metropolis E w)"
proof -
  note b = bfgs_alikeD [OF assms]
  note a = iter_alikeD [OF b(1)]
  show ?thesis
    by (rule iter_alikeI) (simp_all add: metropolis_def Let_def case_prod_beta a b)
qed

lemma mc_loop_alike:
  "iter_alike v w \<Longrightarrow> rel_option iter_alike (mc_loop E fuel n v) (mc_loop E fuel n w)"
proof (induction n arbitrary: v w)
  case 0
  then show ?case by simp
next
  case (Suc n)
  from mutate_loop_alike [OF Suc.prems, of E fuel]
  show ?case
  proof (cases rule: option.rel_cases)
    case None
    then show ?thesis by simp
  next
    case (Some v1 w1)
    from bfgs_loop_alike [OF Some(3), of E fuel "identity_hessian (num_variables (env_lig E))"]
    show ?thesis
    proof (cases rule: option.rel_cases)
      case None
      with Some(1,2) show ?thesis by simp
    next
      case (Some v2 w2)
      from Suc.IH [OF metropolis_alike [OF Some(3)]] Some(1,2) \<open>mutate_loop E fuel v = Some v1\<close>
        \<open>mutate_loop E fuel w = Some w1\<close>
      show ?thesis by simp
    qed
  qed
qed

lemma monte_carlo_task_alike:
  assumes "same_constructed l1 l2"
  shows "monte_carlo_task E fuel l1 res seed = monte_carlo_task E fuel l2 res seed"
proof -
  let ?v = "task_start E l1 res seed" and ?w = "task_start E l2 res seed"
  from assms have ia: "init_alike ?v ?w"
    unfolding init_alike_def same_constructed_def task_start_def by simp
  note il = init_loop_alike [OF ia, of E 1000]
  let ?v1 = "snd (init_loop E 1000 ?v)" and ?w1 = "snd (init_loop E 1000 ?w)"
  have mt: "monte_carlo_task E fuel l res seed =
      (if \<not> fst (init_loop E 1000 (task_start E l res seed)) then Some (results (snd (init_loop E 1000 (task_start E l res seed))))
       else map_option results (mc_loop E fuel (num_mc_iterations (env_lig E))
              ((snd (init_loop E 1000 (task_start E l res seed)))\<lparr>best_e := e0 (snd (init_loop E 1000 (task_start E l res seed)))\<rparr>)))" for l
    unfolding monte_carlo_task_def Let_def case_prod_beta by simp
  from il have r: "results ?v1 = results ?w1"
    unfolding init_alike_def by simp
  show ?thesis
  proof (cases "fst (init_loop E 1000 ?v)")
    case False
    with il have "\<not> fst (init_loop E 1000 ?w)" by simp
    with False r show ?thesis unfolding mt by simp
  next
    case True
    with il have tw: "fst (init_loop E 1000 ?w)" by simp
    from il True have "iter_alike (?v1\<lparr>best_e := e0 ?v1\<rparr>) (?w1\<lparr>best_e := e0 ?w1\<rparr>)"
      unfolding iter_alike_def init_alike_def same_constructed_def by simp
    from mc_loop_alike [OF this, of E fuel "num_mc_iterations (env_lig E)"]
    have "map_option results (mc_loop E fuel (num_mc_iterations (env_lig E)) (?v1\<lparr>best_e := e0 ?v1\<rparr>))
        = map_option results (mc_loop E fuel (num_mc_iterations (env_lig E)) (?w1\<lparr>best_e := e0 ?w1\<rparr>))"
      by (cases rule: option.rel_cases) (simp_all add: iter_alike_def init_alike_def)
    with True tw show ?thesis unfolding mt by simp
  qed
qed

lemma mutate_loop_mono:
  "mutate_loop E n v = Some r \<Longrightarrow> n \<le> m \<Longrightarrow> mutate_loop E m v = Some r"
proof (induction n arbitrary: m v)
  case 0
  then show ?case by simp
next
  case (Suc n)
  from Suc.prems(2) obtain m' where m: "m = Suc m'" "n \<le> m'"
    by (cases m) simp_all
  show ?case
  proof (cases "fst (mutate_attempt E v)")
    case True
    with Suc.prems(1) show ?thesis unfolding m by (simp add: Let_def)
  next
    case False
    with Suc.prems(1) have "mutate_loop E n (snd (mutate_attempt E v)) = Some r"
      by (simp add: Let_def)
    from Suc.IH [OF this m(2)] False show ?thesis unfolding m by (simp add: Let_def)
  qed
qed

lemma bfgs_loop_mono:
  "bfgs_loop E n h v = Some r \<Longrightarrow> n \<le> m \<Longrightarrow> bfgs_loop E m h v = Some r"
proof (induction n arbitrary: m h v)
  case 0
  then show ?case by simp
next
  case (Suc n)
  from Suc.prems(2) obtain m' where m: "m = Suc m'" "n \<le> m'"
    by (cases m) simp_all
  let ?nv = "num_variables (env_lig E)"
  let ?p = "descent_direction ?nv h (g1 v)"
  let ?pg = "p_dot_g ?nv ?p (g1 v)"
  let ?ls = "line_search E ?p ?pg num_alphas 1 v"
  let ?next = "(snd (snd ?ls))\<lparr>c1 := c2 (snd (snd ?ls)), e1 := e2 (snd (snd ?ls)),
      f1 := f2 (snd (snd ?ls)), g1 := g2 (snd (snd ?ls))\<rparr>"
  have step: "bfgs_loop E (Suc k) h v =
      (if \<not> fst ?ls then Some (snd (snd ?ls))
       else bfgs_loop E k (update_hessian ?nv h ?p (fst (snd ?ls)) (g1 (snd (snd ?ls))) (g2 (snd (snd ?ls))))
              ?next)" for k
    by (simp add: Let_def case_prod_beta)
  show ?case
  proof (cases "fst ?ls")
    case False
    with Suc.prems(1) show ?thesis unfolding m step by simp
  next
    case True
    with Suc.prems(1) have "bfgs_loop E n (update_hessian ?nv h ?p (fst (snd ?ls)) (g1 (snd (snd ?ls))) (g2 (snd (snd ?ls))))
              ?next = Some r"
      unfolding step by simp
    from Suc.IH [OF this m(2)] True show ?thesis unfolding m step by simp
  qed
qed

lemma mc_loop_mono:
  "mc_loop E fuel n v = Some r \<Longrightarrow> fuel \<le> fuel' \<Longrightarrow> mc_loop E fuel' n v = Some r"
proof (induction n arbitrary: v)
  case 0
  then show ?case by simp
next
  case (Suc n)
  from Suc.prems(1) obtain v1 v2 where s: "mutate_loop E fuel v = Some v1"
    "bfgs_loop E fuel (identity_hessian (num_variables (env_lig E))) v1 = Some v2"
    "mc_loop E fuel n (metropolis E v2) = Some r"
    by (auto split: option.splits)
  from mutate_loop_mono [OF s(1) Suc.prems(2)] bfgs_loop_mono [OF s(2) Suc.prems(2)]
    Suc.IH [OF s(3) Suc.prems(2)]
  show ?case by simp
qed

lemma monte_carlo_task_mono:
  assumes "monte_carlo_task E fuel l res seed = Some r" and "fuel \<le> fuel'"
  shows "monte_carlo_task E fuel' l res seed = Some r"
proof -
  let ?i = "init_loop E 1000 (task_start E l res seed)"
  have mt: "monte_carlo_task E k l res seed =
      (if \<not> fst ?i then Some (results (snd ?i))
       else map_option results (mc_loop E k (num_mc_iterations (env_lig E))
              ((snd ?i)\<lparr>best_e := e0 (snd ?i)\<rparr>)))" for k
    unfolding monte_carlo_task_def Let_def case_prod_beta by simp
  show ?thesis
  proof (cases "fst ?i")
    case False
    with assms(1) show ?thesis unfolding mt by simp
  next
    case True
    with assms(1) obtain u where u: "mc_loop E fuel (num_mc_iterations (env_lig E))
              ((snd ?i)\<lparr>best_e := e0 (snd ?i)\<rparr>) = Some u" "r = results u"
      unfolding mt by auto
    from mc_loop_mono [OF u(1) assms(2)] True u(2) show ?thesis unfolding mt by simp
  qed
qed

text \<open>
  A whole run on the example: with every grid map the constant 1 the first random
  conformation is accepted, every mutation is accepted at once, every line search fails at
  its five trials, and every Metropolis step accepts; the container takes the first two
  results of the 100 iterations.
\<close>

lemma ex_compose_result1:
  "compose_result ex_lig1 e f c = \<lparr>r_e = e, r_f = f, r_heavy_atoms = [position c], r_hydrogens = []\<rparr>"
  by (simp add: compose_result_def num_frames_def ex_lig1_def compose_init_def ex_root1_def place_all_def
      ex_atom_def num_heavy_atoms_def num_hydrogens_def Let_def mat_vec_zero vadd_zero zero3_def)

lemma ex_mutate_fields:
  "c0 (mutate (ex_env k) v) = c0 v" "position (c1 (mutate (ex_env k) v)) = position (c0 v)"
  "e0 (mutate (ex_env k) v) = e0 v" "best_e (mutate (ex_env k) v) = best_e v"
  "results (mutate (ex_env k) v) = results v"
  by (simp_all add: mutate_def Let_def ex_env_def ex_random_def num_entities_def ex_lig1_def draw3_def
      case_prod_beta)

lemma ex_mutate_attempt:
  assumes "position (c0 v) = (0, 0, 0)"
  shows "fst (mutate_attempt (ex_env 1) v)"
    and "c0 (snd (mutate_attempt (ex_env 1) v)) = c0 v"
    and "e0 (snd (mutate_attempt (ex_env 1) v)) = e0 v"
    and "best_e (snd (mutate_attempt (ex_env 1) v)) = best_e v"
    and "results (snd (mutate_attempt (ex_env 1) v)) = results v"
    and "position (c1 (snd (mutate_attempt (ex_env 1) v))) = (0, 0, 0)"
    and "e1 (snd (mutate_attempt (ex_env 1) v)) = 1"
    and "f1 (snd (mutate_attempt (ex_env 1) v)) = 1"
    and "g_position (g1 (snd (mutate_attempt (ex_env 1) v))) = (0, 0, 0)"
    and "g_orientation (g1 (snd (mutate_attempt (ex_env 1) v))) = (0, 0, 0)"
proof -
  let ?m = "mutate (ex_env 1) v"
  have w: "box_within ex_box (position (c1 ?m))"
    unfolding ex_mutate_fields assms by (simp add: box_within_def ex_box_def)
  have ev: "call_evaluate (ex_env 1) (c1 ?m) (e_upper_bound (env_lig (ex_env 1))) (e1 ?m, f1 ?m, g1 ?m)
      = (True, 1, 1, (g1 ?m)\<lparr>g_position := (0, 0, 0), g_orientation := (0, 0, 0)\<rparr>)"
    unfolding ex_call_evaluate ex_e_upper_bound
    by (rule ex_evaluate1_accepts [OF w]) simp
  have ma: "mutate_attempt (ex_env 1) v =
      (True, ?m\<lparr>e1 := 1, f1 := 1, g1 := (g1 ?m)\<lparr>g_position := (0, 0, 0), g_orientation := (0, 0, 0)\<rparr>\<rparr>)"
    unfolding mutate_attempt_def Let_def ev by simp
  show "fst (mutate_attempt (ex_env 1) v)"
    "c0 (snd (mutate_attempt (ex_env 1) v)) = c0 v"
    "e0 (snd (mutate_attempt (ex_env 1) v)) = e0 v"
    "best_e (snd (mutate_attempt (ex_env 1) v)) = best_e v"
    "results (snd (mutate_attempt (ex_env 1) v)) = results v"
    "position (c1 (snd (mutate_attempt (ex_env 1) v))) = (0, 0, 0)"
    "e1 (snd (mutate_attempt (ex_env 1) v)) = 1"
    "f1 (snd (mutate_attempt (ex_env 1) v)) = 1"
    "g_position (g1 (snd (mutate_attempt (ex_env 1) v))) = (0, 0, 0)"
    "g_orientation (g1 (snd (mutate_attempt (ex_env 1) v))) = (0, 0, 0)"
    unfolding ma by (simp_all add: ex_mutate_fields assms)
qed

lemma line_trial_fields:
  "c0 (snd (line_trial E p pg1 a v)) = c0 v" "e0 (snd (line_trial E p pg1 a v)) = e0 v"
  "best_e (snd (line_trial E p pg1 a v)) = best_e v" "results (snd (line_trial E p pg1 a v)) = results v"
  "c1 (snd (line_trial E p pg1 a v)) = c1 v" "f1 (snd (line_trial E p pg1 a v)) = f1 v"
  by (simp_all add: line_trial_def Let_def case_prod_beta)

lemma trial_vars_fields:
  "c0 (trial_vars E p pg1 a k v) = c0 v" "e0 (trial_vars E p pg1 a k v) = e0 v"
  "best_e (trial_vars E p pg1 a k v) = best_e v" "results (trial_vars E p pg1 a k v) = results v"
  "c1 (trial_vars E p pg1 a k v) = c1 v" "f1 (trial_vars E p pg1 a k v) = f1 v"
  by (induction k) (simp_all add: line_trial_fields)

lemma ex_bfgs_loop:
  assumes "e1 v = 1" "g_position (g1 v) = (0, 0, 0)" "g_orientation (g1 v) = (0, 0, 0)"
  shows "\<exists>v'. bfgs_loop (ex_env 1) (Suc n) h v = Some v' \<and> c0 v' = c0 v \<and> e0 v' = e0 v
      \<and> best_e v' = best_e v \<and> results v' = results v \<and> c1 v' = c1 v \<and> e1 v' = e1 v \<and> f1 v' = f1 v"
proof -
  define p where "p = descent_direction 6 h (g1 v)"
  have "\<forall>i<6. change_nth (g1 v) i = 0"
    by (auto simp: change_nth_def assms)
  from p_dot_g_zero [OF this] have pg: "p_dot_g 6 p (g1 v) = 0" .
  have "\<forall>k<num_alphas. \<not> fst (line_trial (ex_env 1) p 0 (1 * (1 / 10) ^ Suc k) (trial_vars (ex_env 1) p 0 1 k v))"
    by (intro allI impI ex_trial_rejected) (simp add: e1_trial_vars assms)
  from line_search_none [OF this]
  have ls: "line_search (ex_env 1) p 0 num_alphas 1 v
      = (False, 1 * (1 / 10) ^ num_alphas, trial_vars (ex_env 1) p 0 1 num_alphas v)" .
  have "bfgs_loop (ex_env 1) (Suc n) h v = Some (trial_vars (ex_env 1) p 0 1 num_alphas v)"
    unfolding bfgs_loop.simps ex_num_variables Let_def p_def [symmetric] pg ls by simp
  then show ?thesis
    by (simp add: trial_vars_fields e1_trial_vars)
qed

lemma ex_metropolis:
  assumes "e0 v = 1" "e1 v = 1" "best_e v = 1" "capacity (results v) = 2"
  shows "results (metropolis (ex_env 1) v) =
      (if length (items (results v)) < 2
       then (results v)\<lparr>items := compose_result ex_lig1 1 (f1 v) (c1 v) # items (results v)\<rparr>
       else results v)"
    and "c0 (metropolis (ex_env 1) v) = c1 v" "e0 (metropolis (ex_env 1) v) = 1"
    and "best_e (metropolis (ex_env 1) v) = 1"
  by (simp_all add: metropolis_def Let_def assms ex_env_def ex_random_def required_square_error_def)

lemma ex_mc_loop:
  "position (c0 v) = (0, 0, 0) \<Longrightarrow> e0 v = 1 \<Longrightarrow> best_e v = 1 \<Longrightarrow>
   results v = \<lparr>items = replicate (min j 2) ex_result1, capacity = 2\<rparr> \<Longrightarrow>
   \<exists>v'. mc_loop (ex_env 1) (Suc fuel) n v = Some v'
      \<and> results v' = \<lparr>items = replicate (min (j + n) 2) ex_result1, capacity = 2\<rparr>"
proof (induction n arbitrary: j v)
  case 0
  then show ?case by simp
next
  case (Suc n)
  let ?E = "ex_env 1"
  note ma = ex_mutate_attempt [OF Suc.prems(1)]
  let ?v1 = "snd (mutate_attempt ?E v)"
  have ml: "mutate_loop ?E (Suc fuel) v = Some ?v1"
    using ma(1) by (simp add: Let_def)
  from ex_bfgs_loop [OF ma(7) ma(9) ma(10), of fuel "identity_hessian (num_variables (env_lig ?E))"]
  obtain v2 where v2: "bfgs_loop ?E (Suc fuel) (identity_hessian (num_variables (env_lig ?E))) ?v1 = Some v2"
    "c0 v2 = c0 ?v1" "e0 v2 = e0 ?v1" "best_e v2 = best_e ?v1" "results v2 = results ?v1"
    "c1 v2 = c1 ?v1" "e1 v2 = e1 ?v1" "f1 v2 = f1 ?v1"
    by blast
  have f: "e0 v2 = 1" "e1 v2 = 1" "best_e v2 = 1" "capacity (results v2) = 2"
    "results v2 = \<lparr>items = replicate (min j 2) ex_result1, capacity = 2\<rparr>"
    "f1 v2 = 1" "position (c1 v2) = (0, 0, 0)"
    by (simp_all add: v2 ma Suc.prems)
  note me = ex_metropolis [OF f(1-4)]
  have cr: "compose_result ex_lig1 1 (f1 v2) (c1 v2) = ex_result1"
    unfolding ex_compose_result1 f ex_result1_def by simp
  have r: "results (metropolis ?E v2) = \<lparr>items = replicate (min (Suc j) 2) ex_result1, capacity = 2\<rparr>"
    unfolding me(1) cr f(5) by (auto simp: min_def numeral_2_eq_2)
  have p: "position (c0 (metropolis ?E v2)) = (0, 0, 0)"
    unfolding me(2) f(7) ..
  from Suc.IH [OF p me(3) me(4) r]
  show ?case
    unfolding mc_loop.simps ml option.case v2(1) by simp
qed

lemma ex_init_loop:
  "init_loop (ex_env 1) 1000 v = (True, snd (init_attempt (ex_env 1) v))"
  using init_loop_first_accepted [of 0 1000 "ex_env 1" v]
  by (simp add: init_vars_0 ex_init_attempt)

lemma ex_init_fields:
  "position (c0 (snd (init_attempt (ex_env 1) v))) = (0, 0, 0)"
  "e0 (snd (init_attempt (ex_env 1) v)) = 1"
proof -
  let ?r = "randomize_c0 (ex_env 1) v"
  have w: "box_within ex_box (position (c0 ?r))"
    by (simp add: ex_randomize_position box_within_def ex_box_def)
  have ev: "call_evaluate (ex_env 1) (c0 ?r) (e_upper_bound (env_lig (ex_env 1))) (e0 ?r, f0 ?r, g0 ?r)
      = (True, 1, 1, (g0 ?r)\<lparr>g_position := (0, 0, 0), g_orientation := (0, 0, 0)\<rparr>)"
    unfolding ex_call_evaluate ex_e_upper_bound
    by (rule ex_evaluate1_accepts [OF w]) simp
  show "position (c0 (snd (init_attempt (ex_env 1) v))) = (0, 0, 0)"
    "e0 (snd (init_attempt (ex_env 1) v)) = 1"
    unfolding init_attempt_def Let_def ev by (simp_all add: ex_randomize_position)
qed

lemma ex_run:
  "monte_carlo_task (ex_env 1) (Suc fuel) locals ex_res2 seed
     = Some \<lparr>items = [ex_result1, ex_result1], capacity = 2\<rparr>"
proof -
  let ?E = "ex_env 1"
  let ?v = "task_start ?E locals ex_res2 seed"
  let ?v1 = "snd (init_attempt ?E ?v)"
  have r: "results (?v1\<lparr>best_e := e0 ?v1\<rparr>) = \<lparr>items = replicate (min 0 2) ex_result1, capacity = 2\<rparr>"
    by (simp add: results_init_attempt task_start_def ex_res2_def)
  have n: "num_mc_iterations (env_lig ?E) = 100"
    by (simp add: num_mc_iterations_def num_heavy_atoms_def ex_env_def ex_lig1_def)
  from ex_mc_loop [of "?v1\<lparr>best_e := e0 ?v1\<rparr>" 0 fuel 100, OF _ _ _ r]
  obtain v' where v': "mc_loop ?E (Suc fuel) 100 (?v1\<lparr>best_e := e0 ?v1\<rparr>) = Some v'"
    "results v' = \<lparr>items = replicate (min (0 + 100) 2) ex_result1, capacity = 2\<rparr>"
    by (auto simp: ex_init_fields)
  have "replicate (min (0 + 100) 2) ex_result1 = [ex_result1, ex_result1]"
    by (simp add: numeral_2_eq_2)
  with v' show ?thesis
    unfolding monte_carlo_task_def Let_def ex_init_loop n by simp
qed

lemma ex_same_constructed: "same_constructed ex_vars ex_vars_other"
  by (simp add: same_constructed_def ex_vars_def ex_vars_other_def ex_conf0_def ex_g0_def)

text \<open>
  Claim C8. monte\_carlo\_task is deterministic. For the same seed, ligand, scoring function,
  box and grid maps, and the same result container to start from, two runs produce the
  same results: if one run returns the container \<open>r\<close>, then so does every other run,
  whatever its local variables hold when they are declared beyond what their constructors
  settle, and however many iterations its unbounded loops are allowed beyond those of the
  first run. All randomness comes from the one engine that \<open>task_start\<close> seeds with \<open>seed\<close>.
\<close>

theorem monte_carlo_task_deterministic:
  assumes "same_constructed locals1 locals2"
    and "monte_carlo_task E fuel1 locals1 res seed = Some r"
    and "fuel1 \<le> fuel2"
  shows "monte_carlo_task E fuel2 locals2 res seed = Some r"
proof -
  from monte_carlo_task_mono [OF assms(2,3)]
  have "monte_carlo_task E fuel2 locals1 res seed = Some r" .
  with monte_carlo_task_alike [OF assms(1), of E fuel2 res seed] show ?thesis by simp
qed

theorem monte_carlo_task_deterministic_witness:
  "same_constructed ex_vars ex_vars_other
   \<and> monte_carlo_task (ex_env 1) 1 ex_vars ex_res2 7 = Some \<lparr>items = [ex_result1, ex_result1], capacity = 2\<rparr>
   \<and> (1 :: nat) \<le> 3
   \<and> monte_carlo_task (ex_env 1) 3 ex_vars_other ex_res2 7 = Some \<lparr>items = [ex_result1, ex_result1], capacity = 2\<rparr>"
proof -
  have run: "monte_carlo_task (ex_env 1) 1 ex_vars ex_res2 7 = Some \<lparr>items = [ex_result1, ex_result1], capacity = 2\<rparr>"
    using ex_run [of 0 ex_vars 7] by simp
  have le: "(1 :: nat) \<le> 3" by simp
  from monte_carlo_task_deterministic [OF ex_same_constructed run le] ex_same_constructed run le
  show ?thesis by blast
qed

subsection \<open>The initialisation loop and the task\<close>

text \<open>
  What one attempt of the initialisation loop draws, in the order of the source, and what
  the task does after the loop.
\<close>

lemma draw_torsions_Suc:
  "draw_torsions d (Suc n) tr =
     (let tr' = draw_torsions d n tr in ((fst tr')[n := fst (d (snd tr'))], snd (d (snd tr'))))"
  by (simp add: draw_torsions_def case_prod_beta Let_def)

lemma draw_torsions_char:
  "snd (draw_torsions d n (ts, r)) = ((\<lambda>r. snd (d r)) ^^ n) r
   \<and> length (fst (draw_torsions d n (ts, r))) = length ts
   \<and> (\<forall>i<length ts. fst (draw_torsions d n (ts, r)) ! i
         = (if i < n then fst (d (((\<lambda>r. snd (d r)) ^^ i) r)) else ts ! i))"
proof (induction n)
  case 0
  show ?case by (simp add: draw_torsions_def)
next
  case (Suc n)
  then show ?case
    by (auto simp: draw_torsions_Suc Let_def nth_list_update less_Suc_eq)
qed

lemma init_attempt_draws:
  "(let R = env_random E; b = env_b E; n = num_active_torsions (env_lig E);
        U0 = uniform_real_distribution R (fst (corner1 b)) (fst (corner2 b));
        U1 = uniform_real_distribution R (fst (snd (corner1 b))) (fst (snd (corner2 b)));
        U2 = uniform_real_distribution R (snd (snd (corner1 b))) (snd (snd (corner2 b)));
        N = normal_distribution R 0 1;
        T = uniform_real_distribution R (- mc_pi) mc_pi;
        r1 = snd (U0 (eng v)); r2 = snd (U1 r1); r3 = snd (U2 r2);
        r4 = snd (N r3); r5 = snd (N r4); r6 = snd (N r5); r7 = snd (N r6);
        c = c0 (snd (init_attempt E v))
    in position c = (fst (U0 (eng v)), fst (U1 r1), fst (U2 r2))
       \<and> orientation c = normalize4 (fst (N r3), fst (N r4), fst (N r5), fst (N r6))
       \<and> length (torsions c) = length (torsions (c0 v))
       \<and> (\<forall>i<length (torsions (c0 v)). torsions c ! i
             = (if i < n then fst (T (((\<lambda>r. snd (T r)) ^^ i) r7)) else torsions (c0 v) ! i))
       \<and> eng (snd (init_attempt E v)) = ((\<lambda>r. snd (T r)) ^^ n) r7
       \<and> fst (init_attempt E v) = fst (call_evaluate E c (e_upper_bound (env_lig E)) (e0 v, f0 v, g0 v)))"
proof -
  have c: "c0 (snd (init_attempt E v)) = c0 (randomize_c0 E v)"
    "eng (snd (init_attempt E v)) = eng (randomize_c0 E v)"
    by (simp_all add: init_attempt_def Let_def case_prod_beta)
  have e: "e0 (randomize_c0 E v) = e0 v" "f0 (randomize_c0 E v) = f0 v" "g0 (randomize_c0 E v) = g0 v"
    by (simp_all add: randomize_c0_def Let_def)
  have f: "fst (init_attempt E v) = fst (call_evaluate E (c0 (randomize_c0 E v)) (e_upper_bound (env_lig E)) (e0 v, f0 v, g0 v))"
    by (simp add: init_attempt_def Let_def case_prod_beta e)
  show ?thesis
    unfolding Let_def c f
    using draw_torsions_char [of "uniform_real_distribution (env_random E) (- mc_pi) mc_pi"
        "num_active_torsions (env_lig E)" "torsions (c0 v)"]
    by (simp add: randomize_c0_def Let_def draw3_def draw4_def case_prod_beta)
qed

lemma task_all_rejected:
  assumes "\<forall>k<1000. \<not> fst (init_attempt E (init_vars E k (task_start E locals res seed)))"
  shows "monte_carlo_task E fuel locals res seed = Some res"
proof -
  from init_loop_all_rejected [OF assms]
  have l: "init_loop E 1000 (task_start E locals res seed) = (False, init_vars E 1000 (task_start E locals res seed))" .
  show ?thesis
    by (simp add: monte_carlo_task_def Let_def l results_init_vars) (simp add: task_start_def)
qed

lemma task_first_accepted:
  assumes "k < 1000"
    and "\<forall>j<k. \<not> fst (init_attempt E (init_vars E j (task_start E locals res seed)))"
    and "fst (init_attempt E (init_vars E k (task_start E locals res seed)))"
  shows "monte_carlo_task E fuel locals res seed
     = map_option results (mc_loop E fuel (num_mc_iterations (env_lig E))
         ((snd (init_attempt E (init_vars E k (task_start E locals res seed))))
            \<lparr>best_e := e0 (snd (init_attempt E (init_vars E k (task_start E locals res seed))))\<rparr>))"
proof -
  from init_loop_first_accepted [OF assms]
  have l: "init_loop E 1000 (task_start E locals res seed)
      = (True, snd (init_attempt E (init_vars E k (task_start E locals res seed))))" .
  show ?thesis
    by (simp add: monte_carlo_task_def Let_def l)
qed

lemma ex_env2_fields:
  "env_lig ex_env2 = ex_lig1" "env_b ex_env2 = ex_box" "env_random ex_env2 = ex_random2"
  "e_upper_bound ex_lig1 = 4" "num_active_torsions ex_lig1 = 0"
  "call_evaluate ex_env2 c bound efg = evaluate ex_lig1 c ex_sf ex_box (\<lambda>t x y z. 1) bound efg"
  by (simp_all add: ex_env2_def ex_env_def e_upper_bound_def num_heavy_atoms_def ex_lig1_def call_evaluate_def)

lemma ex2_position:
  "position (c0 (randomize_c0 ex_env2 v))
     = (if eng v < 14 then 10 else 0, if eng v + 1 < 14 then 10 else 0, if eng v + 2 < 14 then 10 else 0)"
  by (simp add: randomize_c0_def Let_def ex_env2_fields ex_random2_def ex_box_def draw3_def)

lemma ex2_eng: "eng (snd (init_attempt ex_env2 v)) = eng v + 7"
  by (simp add: init_attempt_def randomize_c0_def Let_def case_prod_beta ex_env2_fields ex_random2_def
      draw3_def draw4_def draw_torsions_def)

lemma ex2_rejected: "eng v < 14 \<Longrightarrow> \<not> fst (init_attempt ex_env2 v)"
  by (simp add: fst_init_attempt ex_env2_fields evaluate_def eval_kinematics_def ex2_position
      box_within_def ex_box_def)

lemma ex2_accepted: "14 \<le> eng v \<Longrightarrow> fst (init_attempt ex_env2 v)"
proof -
  assume "14 \<le> eng v"
  then have "box_within ex_box (position (c0 (randomize_c0 ex_env2 v)))"
    by (simp add: ex2_position box_within_def ex_box_def)
  from ex_evaluate1 [OF this] show ?thesis
    by (simp add: fst_init_attempt ex_env2_fields)
qed

lemma ex2_init_vars: "eng (init_vars ex_env2 j v) = eng v + 7 * j"
  by (induction j arbitrary: v) (simp_all add: init_vars_0 init_vars_Suc ex2_eng)

lemma ex2_attempts:
  "\<forall>j<2. \<not> fst (init_attempt ex_env2 (init_vars ex_env2 j (task_start ex_env2 ex_vars ex_res2 0)))"
  "fst (init_attempt ex_env2 (init_vars ex_env2 2 (task_start ex_env2 ex_vars ex_res2 0)))"
proof -
  have e: "eng (task_start ex_env2 ex_vars ex_res2 0) = 0"
    by (simp add: task_start_def ex_env2_fields ex_random2_def)
  show "\<forall>j<2. \<not> fst (init_attempt ex_env2 (init_vars ex_env2 j (task_start ex_env2 ex_vars ex_res2 0)))"
  proof (intro allI impI)
    fix j :: nat assume "j < 2"
    then have "eng (init_vars ex_env2 j (task_start ex_env2 ex_vars ex_res2 0)) < 14"
      unfolding ex2_init_vars e by simp
    then show "\<not> fst (init_attempt ex_env2 (init_vars ex_env2 j (task_start ex_env2 ex_vars ex_res2 0)))"
      by (rule ex2_rejected)
  qed
  have "14 \<le> eng (init_vars ex_env2 2 (task_start ex_env2 ex_vars ex_res2 0))"
    unfolding ex2_init_vars e by simp
  then show "fst (init_attempt ex_env2 (init_vars ex_env2 2 (task_start ex_env2 ex_vars ex_res2 0)))"
    by (rule ex2_accepted)
qed

text \<open>
  Claim C7. The engine starts from \<open>mt19937_64(seed)\<close>. If the first 1000 attempts of the
  initialisation loop are all rejected, the loop ends after them and the task returns with
  the result container as it was given, for every fuel: no later loop is entered. If
  attempt \<open>k < 1000\<close> is the first that evaluate accepts, the loop stops there and the task
  goes on into the main loop with the variables of that attempt and \<open>best_e = e0\<close>. An
  attempt takes its position from one draw of each of the three uniform distributions over
  the box, its orientation from four draws of the normal distribution with mean 0 and
  deviation 1, normalized (to norm 1 when the draws are not all zero), and torsion \<open>i\<close>
  below \<open>num_active_torsions\<close> from draw \<open>i\<close> of the uniform distribution on \<open>[-pi, pi]\<close>,
  every draw on the engine state its predecessor left; the conformation drawn is the one
  evaluate is called on, with the bound \<open>e_upper_bound\<close>.
\<close>

theorem init_thousand_attempts:
  "eng (task_start E locals res seed) = mt19937_64 (env_random E) seed
   \<and> ((\<forall>k<1000. \<not> fst (init_attempt E (init_vars E k (task_start E locals res seed))))
      \<longrightarrow> init_loop E 1000 (task_start E locals res seed) = (False, init_vars E 1000 (task_start E locals res seed))
          \<and> monte_carlo_task E fuel locals res seed = Some res)
   \<and> (k < 1000 \<and> (\<forall>j<k. \<not> fst (init_attempt E (init_vars E j (task_start E locals res seed))))
        \<and> fst (init_attempt E (init_vars E k (task_start E locals res seed)))
      \<longrightarrow> init_loop E 1000 (task_start E locals res seed)
            = (True, snd (init_attempt E (init_vars E k (task_start E locals res seed))))
          \<and> monte_carlo_task E fuel locals res seed
            = map_option results (mc_loop E fuel (num_mc_iterations (env_lig E))
                ((snd (init_attempt E (init_vars E k (task_start E locals res seed))))
                   \<lparr>best_e := e0 (snd (init_attempt E (init_vars E k (task_start E locals res seed))))\<rparr>)))
   \<and> (let R = env_random E; b = env_b E; n = num_active_torsions (env_lig E);
        U0 = uniform_real_distribution R (fst (corner1 b)) (fst (corner2 b));
        U1 = uniform_real_distribution R (fst (snd (corner1 b))) (fst (snd (corner2 b)));
        U2 = uniform_real_distribution R (snd (snd (corner1 b))) (snd (snd (corner2 b)));
        N = normal_distribution R 0 1;
        T = uniform_real_distribution R (- mc_pi) mc_pi;
        r1 = snd (U0 (eng v)); r2 = snd (U1 r1); r3 = snd (U2 r2);
        r4 = snd (N r3); r5 = snd (N r4); r6 = snd (N r5); r7 = snd (N r6);
        c = c0 (snd (init_attempt E v))
      in position c = (fst (U0 (eng v)), fst (U1 r1), fst (U2 r2))
       \<and> orientation c = normalize4 (fst (N r3), fst (N r4), fst (N r5), fst (N r6))
       \<and> (0 < norm_sqr4 (fst (N r3), fst (N r4), fst (N r5), fst (N r6)) \<longrightarrow> norm_sqr4 (orientation c) = 1)
       \<and> length (torsions c) = length (torsions (c0 v))
       \<and> (\<forall>i<length (torsions (c0 v)). torsions c ! i
             = (if i < n then fst (T (((\<lambda>r. snd (T r)) ^^ i) r7)) else torsions (c0 v) ! i))
       \<and> eng (snd (init_attempt E v)) = ((\<lambda>r. snd (T r)) ^^ n) r7
       \<and> fst (init_attempt E v) = fst (call_evaluate E c (e_upper_bound (env_lig E)) (e0 v, f0 v, g0 v)))"
proof (intro conjI impI)
  show "eng (task_start E locals res seed) = mt19937_64 (env_random E) seed"
    by (simp add: task_start_def)
next
  assume a: "\<forall>k<1000. \<not> fst (init_attempt E (init_vars E k (task_start E locals res seed)))"
  from init_loop_all_rejected [OF a]
  show "init_loop E 1000 (task_start E locals res seed) = (False, init_vars E 1000 (task_start E locals res seed))" .
  from task_all_rejected [OF a] show "monte_carlo_task E fuel locals res seed = Some res" .
next
  assume a: "k < 1000 \<and> (\<forall>j<k. \<not> fst (init_attempt E (init_vars E j (task_start E locals res seed))))
        \<and> fst (init_attempt E (init_vars E k (task_start E locals res seed)))"
  then have b: "k < 1000" "\<forall>j<k. \<not> fst (init_attempt E (init_vars E j (task_start E locals res seed)))"
    "fst (init_attempt E (init_vars E k (task_start E locals res seed)))"
    by blast+
  from init_loop_first_accepted [OF b]
  show "init_loop E 1000 (task_start E locals res seed)
            = (True, snd (init_attempt E (init_vars E k (task_start E locals res seed))))" .
  from task_first_accepted [OF b]
  show "monte_carlo_task E fuel locals res seed
            = map_option results (mc_loop E fuel (num_mc_iterations (env_lig E))
                ((snd (init_attempt E (init_vars E k (task_start E locals res seed))))
                   \<lparr>best_e := e0 (snd (init_attempt E (init_vars E k (task_start E locals res seed))))\<rparr>))" .
next
  from init_attempt_draws [of E v]
  show "(let R = env_random E; b = env_b E; n = num_active_torsions (env_lig E);
        U0 = uniform_real_distribution R (fst (corner1 b)) (fst (corner2 b));
        U1 = uniform_real_distribution R (fst (snd (corner1 b))) (fst (snd (corner2 b)));
        U2 = uniform_real_distribution R (snd (snd (corner1 b))) (snd (snd (corner2 b)));
        N = normal_distribution R 0 1;
        T = uniform_real_distribution R (- mc_pi) mc_pi;
        r1 = snd (U0 (eng v)); r2 = snd (U1 r1); r3 = snd (U2 r2);
        r4 = snd (N r3); r5 = snd (N r4); r6 = snd (N r5); r7 = snd (N r6);
        c = c0 (snd (init_attempt E v))
      in position c = (fst (U0 (eng v)), fst (U1 r1), fst (U2 r2))
       \<and> orientation c = normalize4 (fst (N r3), fst (N r4), fst (N r5), fst (N r6))
       \<and> (0 < norm_sqr4 (fst (N r3), fst (N r4), fst (N r5), fst (N r6)) \<longrightarrow> norm_sqr4 (orientation c) = 1)
       \<and> length (torsions c) = length (torsions (c0 v))
       \<and> (\<forall>i<length (torsions (c0 v)). torsions c ! i
             = (if i < n then fst (T (((\<lambda>r. snd (T r)) ^^ i) r7)) else torsions (c0 v) ! i))
       \<and> eng (snd (init_attempt E v)) = ((\<lambda>r. snd (T r)) ^^ n) r7
       \<and> fst (init_attempt E v) = fst (call_evaluate E c (e_upper_bound (env_lig E)) (e0 v, f0 v, g0 v)))"
    unfolding Let_def using norm_sqr4_normalize4 by metis
qed

theorem init_thousand_attempts_witness:
  "monte_carlo_task (ex_env 100) 0 ex_vars \<lparr>items = [], capacity = 9\<rparr> 1 = Some \<lparr>items = [], capacity = 9\<rparr>
   \<and> \<not> fst (init_attempt ex_env2 (init_vars ex_env2 0 (task_start ex_env2 ex_vars ex_res2 0)))
   \<and> \<not> fst (init_attempt ex_env2 (init_vars ex_env2 1 (task_start ex_env2 ex_vars ex_res2 0)))
   \<and> fst (init_attempt ex_env2 (init_vars ex_env2 2 (task_start ex_env2 ex_vars ex_res2 0)))
   \<and> monte_carlo_task ex_env2 1 ex_vars ex_res2 0
       = map_option results (mc_loop ex_env2 1 (num_mc_iterations (env_lig ex_env2))
           ((snd (init_attempt ex_env2 (init_vars ex_env2 2 (task_start ex_env2 ex_vars ex_res2 0))))
              \<lparr>best_e := e0 (snd (init_attempt ex_env2 (init_vars ex_env2 2 (task_start ex_env2 ex_vars ex_res2 0))))\<rparr>))
   \<and> position (c0 (snd (init_attempt (ex_env 0) ex_vars))) = (0, 0, 0)
   \<and> orientation (c0 (snd (init_attempt (ex_env 0) ex_vars))) = normalize4 (1, 1, 1, 1)
   \<and> norm_sqr4 (orientation (c0 (snd (init_attempt (ex_env 0) ex_vars)))) = 1"
proof (intro conjI)
  have "\<forall>k<1000. \<not> fst (init_attempt (ex_env 100)
          (init_vars (ex_env 100) k (task_start (ex_env 100) ex_vars \<lparr>items = [], capacity = 9\<rparr> 1)))"
    by (simp add: ex_init_attempt)
  with init_thousand_attempts [where E = "ex_env 100" and locals = ex_vars
      and res = "\<lparr>items = [], capacity = 9\<rparr>" and seed = 1 and fuel = 0]
  show "monte_carlo_task (ex_env 100) 0 ex_vars \<lparr>items = [], capacity = 9\<rparr> 1 = Some \<lparr>items = [], capacity = 9\<rparr>"
    by blast
next
  have "(0::nat) < 2" by simp
  with ex2_attempts(1)
  show "\<not> fst (init_attempt ex_env2 (init_vars ex_env2 0 (task_start ex_env2 ex_vars ex_res2 0)))"
    by blast
next
  have "(1::nat) < 2" by simp
  with ex2_attempts(1)
  show "\<not> fst (init_attempt ex_env2 (init_vars ex_env2 1 (task_start ex_env2 ex_vars ex_res2 0)))"
    by blast
next
  show "fst (init_attempt ex_env2 (init_vars ex_env2 2 (task_start ex_env2 ex_vars ex_res2 0)))"
    by (rule ex2_attempts(2))
next
  have "(2::nat) < 1000" by simp
  with ex2_attempts init_thousand_attempts [where E = ex_env2 and locals = ex_vars
      and res = ex_res2 and seed = 0 and fuel = 1 and k = 2]
  show "monte_carlo_task ex_env2 1 ex_vars ex_res2 0
       = map_option results (mc_loop ex_env2 1 (num_mc_iterations (env_lig ex_env2))
           ((snd (init_attempt ex_env2 (init_vars ex_env2 2 (task_start ex_env2 ex_vars ex_res2 0))))
              \<lparr>best_e := e0 (snd (init_attempt ex_env2 (init_vars ex_env2 2 (task_start ex_env2 ex_vars ex_res2 0))))\<rparr>))"
    by blast
next
  note d = init_thousand_attempts [where E = "ex_env 0" and v = ex_vars, THEN conjunct2, THEN conjunct2,
      THEN conjunct2, unfolded Let_def]
  have r: "env_random (ex_env 0) = ex_random" "env_b (ex_env 0) = ex_box"
    by (simp_all add: ex_env_def)
  have e: "fst (normal_distribution ex_random 0 1 x) = 1"
    "fst (uniform_real_distribution ex_random a b x) = a" for x a b
    by (simp_all add: ex_random_def)
  have b: "corner1 ex_box = (0, 0, 0)"
    by (simp add: ex_box_def)
  from d show "position (c0 (snd (init_attempt (ex_env 0) ex_vars))) = (0, 0, 0)"
    unfolding r e b by (elim conjE) simp
  from d show "orientation (c0 (snd (init_attempt (ex_env 0) ex_vars))) = normalize4 (1, 1, 1, 1)"
    unfolding r e by (elim conjE)
  from d show "norm_sqr4 (orientation (c0 (snd (init_attempt (ex_env 0) ex_vars)))) = 1"
    unfolding r e by (elim conjE) simp
qed

subsection \<open>compose\_result against evaluate on the ligands of the constructor\<close>

text \<open>
  The parser never gives an inactive frame a child and closes it right after its one heavy
  atom, \<open>relativize\<close> leaves that atom at local coordinate zero, and the kinematics of
  evaluate leave it at the origin of its frame.
\<close>

lemma branch_inv_init: "branch_inv parser_init"
  by (simp add: branch_inv_def parser_init_def mk_frame_def)

lemma branch_inv_num_lines: "branch_inv (s\<lparr>num_lines := n\<rparr>) = branch_inv s"
  by (simp add: branch_inv_def)

lemma find_number_bounds: "find_number ns from x = Some i \<Longrightarrow> from \<le> i \<and> i < length ns"
  unfolding find_number_def by (drule find_in_set) simp

lemma branch_invD:
  assumes "branch_inv s"
  shows "parent (p_frames s ! 0) = 0"
    and "k < length (p_frames s) \<Longrightarrow> 0 < k \<Longrightarrow> parent (p_frames s ! k) < k"
    and "k < length (p_frames s) \<Longrightarrow> 0 < k \<Longrightarrow>
           parent (p_frames s ! k) = 0 \<or> active (p_frames s ! parent (p_frames s ! k))"
    and "k < length (p_frames s) \<Longrightarrow> 0 < k \<Longrightarrow> \<not> active (p_frames s ! k) \<Longrightarrow> k \<noteq> current s"
    and "k < length (p_frames s) \<Longrightarrow> 0 < k \<Longrightarrow> \<not> active (p_frames s ! k) \<Longrightarrow>
           rotorY (p_frames s ! k) = habegin (p_frames s ! k)"
    and "k < length (p_frames s) \<Longrightarrow> 0 < k \<Longrightarrow> \<not> active (p_frames s ! k) \<Longrightarrow>
           Suc k < length (p_frames s) \<Longrightarrow> habegin (p_frames s ! Suc k) = Suc (habegin (p_frames s ! k))"
    and "k < length (p_frames s) \<Longrightarrow> 0 < k \<Longrightarrow> \<not> active (p_frames s ! k) \<Longrightarrow>
           \<not> Suc k < length (p_frames s) \<Longrightarrow> length (p_heavy_atoms s) = Suc (habegin (p_frames s ! k))"
  using assms unfolding branch_inv_def by (simp_all split: if_splits)

lemma branch_invI:
  assumes "parent (p_frames s ! 0) = 0"
    and "\<And>k. k < length (p_frames s) \<Longrightarrow> 0 < k \<Longrightarrow> parent (p_frames s ! k) < k"
    and "\<And>k. k < length (p_frames s) \<Longrightarrow> 0 < k \<Longrightarrow>
           parent (p_frames s ! k) = 0 \<or> active (p_frames s ! parent (p_frames s ! k))"
    and "\<And>k. k < length (p_frames s) \<Longrightarrow> 0 < k \<Longrightarrow> \<not> active (p_frames s ! k) \<Longrightarrow> k \<noteq> current s"
    and "\<And>k. k < length (p_frames s) \<Longrightarrow> 0 < k \<Longrightarrow> \<not> active (p_frames s ! k) \<Longrightarrow>
           rotorY (p_frames s ! k) = habegin (p_frames s ! k)"
    and "\<And>k. k < length (p_frames s) \<Longrightarrow> 0 < k \<Longrightarrow> \<not> active (p_frames s ! k) \<Longrightarrow>
           Suc k < length (p_frames s) \<Longrightarrow> habegin (p_frames s ! Suc k) = Suc (habegin (p_frames s ! k))"
    and "\<And>k. k < length (p_frames s) \<Longrightarrow> 0 < k \<Longrightarrow> \<not> active (p_frames s ! k) \<Longrightarrow>
           \<not> Suc k < length (p_frames s) \<Longrightarrow> length (p_heavy_atoms s) = Suc (habegin (p_frames s ! k))"
  shows "branch_inv s"
  unfolding branch_inv_def using assms by simp

lemma parse_atom_branch_inv:
  assumes "branch_inv s" and "parse_atom ops serial ty c s = Inr s'"
  shows "branch_inv s'"
proof -
  note d = branch_invD [OF assms(1)]
  from assms(2) have cur: "current s = length (p_frames s) - 1"
    unfolding parse_atom_def by (auto split: if_splits)
  from assms(2) have f: "p_frames s' = p_frames s" "current s' = current s"
    unfolding parse_atom_def Let_def by (auto split: if_splits)
  show ?thesis
  proof (rule branch_invI; unfold f)
    fix k assume k: "k < length (p_frames s)" "0 < k" "\<not> active (p_frames s ! k)"
      "\<not> Suc k < length (p_frames s)"
    from k(1,4) cur have "k = current s" by simp
    with d(4) [OF k(1-3)] show "length (p_heavy_atoms s') = Suc (habegin (p_frames s ! k))" by simp
  qed (use d in blast)+
qed

lemma branch_frames:
  assumes "fs \<noteq> []"
  shows "length ((fs @ [new])[length fs - 1 := (fs ! (length fs - 1))\<lparr>haend := a, hyend := b\<rparr>]) = Suc (length fs)"
    and "(fs @ [new])[length fs - 1 := (fs ! (length fs - 1))\<lparr>haend := a, hyend := b\<rparr>] ! length fs = new"
    and "k < length fs \<Longrightarrow>
      parent ((fs @ [new])[length fs - 1 := (fs ! (length fs - 1))\<lparr>haend := a, hyend := b\<rparr>] ! k) = parent (fs ! k)
      \<and> active ((fs @ [new])[length fs - 1 := (fs ! (length fs - 1))\<lparr>haend := a, hyend := b\<rparr>] ! k) = active (fs ! k)
      \<and> rotorY ((fs @ [new])[length fs - 1 := (fs ! (length fs - 1))\<lparr>haend := a, hyend := b\<rparr>] ! k) = rotorY (fs ! k)
      \<and> habegin ((fs @ [new])[length fs - 1 := (fs ! (length fs - 1))\<lparr>haend := a, hyend := b\<rparr>] ! k) = habegin (fs ! k)"
proof -
  from assms have l: "length fs - 1 < length fs" "length fs - 1 \<noteq> length fs"
    by (cases fs; simp)+
  show "length ((fs @ [new])[length fs - 1 := (fs ! (length fs - 1))\<lparr>haend := a, hyend := b\<rparr>]) = Suc (length fs)"
    by simp
  show "(fs @ [new])[length fs - 1 := (fs ! (length fs - 1))\<lparr>haend := a, hyend := b\<rparr>] ! length fs = new"
    using l(2) by simp
  show "parent ((fs @ [new])[length fs - 1 := (fs ! (length fs - 1))\<lparr>haend := a, hyend := b\<rparr>] ! k) = parent (fs ! k)
      \<and> active ((fs @ [new])[length fs - 1 := (fs ! (length fs - 1))\<lparr>haend := a, hyend := b\<rparr>] ! k) = active (fs ! k)
      \<and> rotorY ((fs @ [new])[length fs - 1 := (fs ! (length fs - 1))\<lparr>haend := a, hyend := b\<rparr>] ! k) = rotorY (fs ! k)
      \<and> habegin ((fs @ [new])[length fs - 1 := (fs ! (length fs - 1))\<lparr>haend := a, hyend := b\<rparr>] ! k) = habegin (fs ! k)"
    if "k < length fs"
    using that l(1) by (cases "k = length fs - 1") (simp_all add: nth_append nth_list_update)
qed

lemma parse_branch_result:
  assumes "p_frames s \<noteq> []" and "parse_branch x s = Inr s'"
  shows "\<exists>i. s' = s\<lparr>p_frames := (p_frames s @ [mk_frame (current s) i (length (p_heavy_atoms s)) (length (p_hydrogens s))])
        [length (p_frames s) - 1 := (p_frames s ! (length (p_frames s) - 1))
           \<lparr>haend := length (p_heavy_atoms s), hyend := length (p_hydrogens s)\<rparr>],
      current := length (p_frames s)\<rparr>"
proof -
  from assms(2) obtain i where i: "find_number (numbers s) (habegin (p_frames s ! current s)) x = Some i"
    unfolding parse_branch_def by (auto split: option.splits)
  from assms(1) have l: "length (p_frames s) - 1 < length (p_frames s)" by simp
  have "s' = s\<lparr>p_frames := (p_frames s @ [mk_frame (current s) i (length (p_heavy_atoms s)) (length (p_hydrogens s))])
        [length (p_frames s) - 1 := (p_frames s ! (length (p_frames s) - 1))
           \<lparr>haend := length (p_heavy_atoms s), hyend := length (p_hydrogens s)\<rparr>],
      current := length (p_frames s)\<rparr>"
    using assms(2) l unfolding parse_branch_def i
    by (simp add: Let_def nth_append mk_frame_def)
  then show ?thesis ..
qed

lemma parse_branch_branch_inv:
  assumes pi: "parser_inv s" and bi: "branch_inv s" and pb: "parse_branch x s = Inr s'"
  shows "branch_inv s'"
proof -
  note d = branch_invD [OF bi]
  from pi have ne: "p_frames s \<noteq> []" and cl: "current s < length (p_frames s)"
    unfolding parser_inv_def by simp_all
  from parse_branch_result [OF ne pb] obtain i where
    s': "s' = s\<lparr>p_frames := (p_frames s @ [mk_frame (current s) i (length (p_heavy_atoms s)) (length (p_hydrogens s))])
        [length (p_frames s) - 1 := (p_frames s ! (length (p_frames s) - 1))
           \<lparr>haend := length (p_heavy_atoms s), hyend := length (p_hydrogens s)\<rparr>],
      current := length (p_frames s)\<rparr>" ..
  define new where "new = mk_frame (current s) i (length (p_heavy_atoms s)) (length (p_hydrogens s))"
  define fs' where "fs' = (p_frames s @ [new])
        [length (p_frames s) - 1 := (p_frames s ! (length (p_frames s) - 1))
           \<lparr>haend := length (p_heavy_atoms s), hyend := length (p_hydrogens s)\<rparr>]"
  note bf = branch_frames [OF ne, where new = new and a = "length (p_heavy_atoms s)"
      and b = "length (p_hydrogens s)", folded fs'_def]
  have f: "p_frames s' = fs'" "current s' = length (p_frames s)" "p_heavy_atoms s' = p_heavy_atoms s"
    unfolding s' fs'_def new_def by simp_all
  have old: "parent (fs' ! k) = parent (p_frames s ! k)" "active (fs' ! k) = active (p_frames s ! k)"
    "rotorY (fs' ! k) = rotorY (p_frames s ! k)" "habegin (fs' ! k) = habegin (p_frames s ! k)"
    if "k < length (p_frames s)" for k
    using bf(3) [OF that] by simp_all
  have nw: "parent (fs' ! length (p_frames s)) = current s" "active (fs' ! length (p_frames s))"
    "habegin (fs' ! length (p_frames s)) = length (p_heavy_atoms s)"
    unfolding bf(2) new_def mk_frame_def by simp_all
  have cases: "k < length (p_frames s) \<or> k = length (p_frames s)" if "k < length fs'" for k
    using that unfolding bf(1) by auto
  from ne have z: "0 < length (p_frames s)" by simp
  show ?thesis
  proof (rule branch_invI; unfold f)
    show "parent (fs' ! 0) = 0"
      using old(1) [OF z] d(1) by simp
  next
    fix k assume k: "k < length fs'" "0 < k"
    from cases [OF k(1)] show "parent (fs' ! k) < k"
    proof
      assume a: "k < length (p_frames s)"
      from d(2) [OF a k(2)] old(1) [OF a] show ?thesis by simp
    next
      assume "k = length (p_frames s)"
      with nw(1) cl show ?thesis by simp
    qed
    from cases [OF k(1)] show "parent (fs' ! k) = 0 \<or> active (fs' ! parent (fs' ! k))"
    proof
      assume a: "k < length (p_frames s)"
      from d(2) [OF a k(2)] a have p: "parent (p_frames s ! k) < length (p_frames s)" by simp
      from d(3) [OF a k(2)] old(1) [OF a] old(2) [OF p] show ?thesis by simp
    next
      assume e: "k = length (p_frames s)"
      show ?thesis
      proof (cases "current s = 0")
        case True
        with nw(1) e show ?thesis by simp
      next
        case False
        then have c0: "0 < current s" by simp
        from d(4) [OF cl c0] have "active (p_frames s ! current s)" by blast
        with old(2) [OF cl] nw(1) e show ?thesis by simp
      qed
    qed
  next
    fix k assume k: "k < length fs'" "0 < k" "\<not> active (fs' ! k)"
    from cases [OF k(1)] k(3) nw(2) have a: "k < length (p_frames s)" by blast
    from k(3) old(2) [OF a] have ia: "\<not> active (p_frames s ! k)" by simp
    from a show "k \<noteq> length (p_frames s)" by simp
    from d(5) [OF a k(2) ia] old [OF a] show "rotorY (fs' ! k) = habegin (fs' ! k)" by simp
    show "habegin (fs' ! Suc k) = Suc (habegin (fs' ! k))" if "Suc k < length fs'"
    proof (cases "Suc k < length (p_frames s)")
      case True
      from d(6) [OF a k(2) ia True] old(4) [OF a] old(4) [OF True] show ?thesis by simp
    next
      case False
      with a have e: "Suc k = length (p_frames s)" by simp
      from d(7) [OF a k(2) ia False] nw(3) old(4) [OF a] show ?thesis unfolding e by simp
    qed
    show "length (p_heavy_atoms s) = Suc (habegin (fs' ! k))" if "\<not> Suc k < length fs'"
      using that a unfolding bf(1) by simp
  qed
qed

lemma parse_endbranch_result:
  assumes "current s < length (p_frames s)" and "parse_endbranch y s = Inr s'"
  shows "\<exists>i g. habegin (p_frames s ! current s) \<le> i \<and> i < length (numbers s)
      \<and> p_frames s' = (p_frames s)[current s := g] \<and> current s' = parent (p_frames s ! current s)
      \<and> p_heavy_atoms s' = p_heavy_atoms s
      \<and> parent g = parent (p_frames s ! current s) \<and> habegin g = habegin (p_frames s ! current s)
      \<and> rotorY g = i
      \<and> active g = (if current s = length (p_frames s) - 1
                        \<and> habegin (p_frames s ! current s) + 1 = length (p_heavy_atoms s)
                     then False else active (p_frames s ! current s))"
proof -
  let ?f = "p_frames s ! current s"
  from assms(2) obtain i where i: "find_number (numbers s) (habegin ?f) y = Some i"
    unfolding parse_endbranch_def Let_def by (auto split: option.splits if_splits)
  note b = find_number_bounds [OF i]
  show ?thesis
  proof (cases "current s = length (p_frames s) - 1 \<and> habegin ?f + 1 = length (p_heavy_atoms s)")
    case True
    with assms b show ?thesis
      unfolding parse_endbranch_def Let_def i
      by (intro exI [of _ i] exI [of _ "?f\<lparr>rotorY := i, active := False\<rparr>"])
        (auto split: if_splits)
  next
    case False
    with assms b show ?thesis
      unfolding parse_endbranch_def Let_def i
      by (intro exI [of _ i] exI [of _ "?f\<lparr>rotorY := i\<rparr>"])
        (auto split: if_splits)
  qed
qed

lemma parse_endbranch_branch_inv:
  assumes pi: "parser_inv s" and bi: "branch_inv s" and pe: "parse_endbranch y s = Inr s'"
  shows "branch_inv s'"
proof -
  note d = branch_invD [OF bi]
  from pi have cl: "current s < length (p_frames s)"
    and nl: "length (numbers s) = length (p_heavy_atoms s)"
    unfolding parser_inv_def by simp_all
  let ?fs = "p_frames s" and ?c = "current s"
  from parse_endbranch_result [OF cl pe] obtain i g where
    r: "habegin (?fs ! ?c) \<le> i" "i < length (numbers s)"
      "p_frames s' = ?fs[?c := g]" "current s' = parent (?fs ! ?c)"
      "p_heavy_atoms s' = p_heavy_atoms s"
      "parent g = parent (?fs ! ?c)" "habegin g = habegin (?fs ! ?c)" "rotorY g = i"
      "active g = (if ?c = length ?fs - 1 \<and> habegin (?fs ! ?c) + 1 = length (p_heavy_atoms s)
                   then False else active (?fs ! ?c))"
    by blast
  have par: "parent (?fs[?c := g] ! k) = parent (?fs ! k)" if "k < length ?fs" for k
    using that r(6) by (cases "k = ?c") simp_all
  have hb: "habegin (?fs[?c := g] ! k) = habegin (?fs ! k)" if "k < length ?fs" for k
    using that r(7) by (cases "k = ?c") simp_all
  have oth: "?fs[?c := g] ! k = ?fs ! k" if "k \<noteq> ?c" for k
    using that by simp
  have cur: "?fs[?c := g] ! ?c = g"
    using cl by simp
  show ?thesis
  proof (rule branch_invI; unfold r(3,4,5) length_list_update)
    from cl have "0 < length ?fs" by (cases "p_frames s") simp_all
    from par [OF this] d(1) show "parent (?fs[?c := g] ! 0) = 0" by simp
  next
    fix k assume k: "k < length ?fs" "0 < k"
    from d(2) [OF k] par [OF k(1)] show "parent (?fs[?c := g] ! k) < k" by simp
    from d(2) [OF k] k(1) have pl: "parent (?fs ! k) < length ?fs" "parent (?fs ! k) < k" by simp_all
    show "parent (?fs[?c := g] ! k) = 0 \<or> active (?fs[?c := g] ! parent (?fs[?c := g] ! k))"
    proof (cases "parent (?fs ! k) = ?c")
      case False
      from d(3) [OF k] oth [OF False] par [OF k(1)] show ?thesis by simp
    next
      case True
      with pl(2) k(1) have "?c \<noteq> length ?fs - 1" by simp
      with r(9) have "active g = active (?fs ! ?c)" by simp
      with d(3) [OF k] True cur par [OF k(1)] show ?thesis by simp
    qed
  next
    fix k assume k: "k < length ?fs" "0 < k" "\<not> active (?fs[?c := g] ! k)"
    have main: "k \<noteq> parent (?fs ! ?c) \<and> rotorY (?fs[?c := g] ! k) = habegin (?fs[?c := g] ! k)
        \<and> (Suc k < length ?fs \<longrightarrow> habegin (?fs[?c := g] ! Suc k) = Suc (habegin (?fs[?c := g] ! k)))
        \<and> (\<not> Suc k < length ?fs \<longrightarrow> length (p_heavy_atoms s) = Suc (habegin (?fs[?c := g] ! k)))"
    proof (cases "k = ?c")
      case False
      with k(3) have ia: "\<not> active (?fs ! k)" by simp
      have n: "k \<noteq> parent (?fs ! ?c)"
      proof (cases "?c = 0")
        case True
        with d(1) k(2) show ?thesis by simp
      next
        case False
        then have "0 < ?c" by simp
        from d(3) [OF cl this] ia k(2) show ?thesis by auto
      qed
      from n d(5) [OF k(1,2) ia] d(6) [OF k(1,2) ia] d(7) [OF k(1,2) ia] oth [OF False] hb
      show ?thesis by simp
    next
      case True
      with k(3) cur have ig: "\<not> active g" by simp
      have af: "active (?fs ! ?c)"
        using d(4) [OF k(1,2)] True by blast
      with ig r(9) have cond: "?c = length ?fs - 1" "habegin (?fs ! ?c) + 1 = length (p_heavy_atoms s)"
        by (simp_all split: if_splits)
      from r(1,2) nl cond(2) have i: "i = habegin (?fs ! ?c)" by simp
      from d(2) [OF k(1,2)] True have np: "k \<noteq> parent (?fs ! ?c)" by simp
      from True cond(1) k(1) have ns: "\<not> Suc k < length ?fs" by arith
      have ry: "rotorY (?fs[?c := g] ! k) = habegin (?fs[?c := g] ! k)"
        unfolding True cur r(7,8) i ..
      have hn: "length (p_heavy_atoms s) = Suc (habegin (?fs[?c := g] ! k))"
        unfolding True cur r(7) using cond(2) by simp
      from np ns ry hn show ?thesis by blast
    qed
    from main show "k \<noteq> parent (?fs ! ?c)" by blast
    from main show "rotorY (?fs[?c := g] ! k) = habegin (?fs[?c := g] ! k)" by blast
    from main show "habegin (?fs[?c := g] ! Suc k) = Suc (habegin (?fs[?c := g] ! k))" if "Suc k < length ?fs"
      using that by blast
    from main show "length (p_heavy_atoms s) = Suc (habegin (?fs[?c := g] ! k))" if "\<not> Suc k < length ?fs"
      using that by blast
  qed
qed

lemma parse_line_branch_inv:
  assumes "parser_inv s" and "branch_inv s" and "parse_line ops l s = Inr s'"
  shows "branch_inv s'"
proof -
  from assms(1) have a: "parser_inv (s\<lparr>num_lines := num_lines s + 1\<rparr>)"
    by (simp only: parser_inv_num_lines)
  from assms(2) have b: "branch_inv (s\<lparr>num_lines := num_lines s + 1\<rparr>)"
    by (simp only: branch_inv_num_lines)
  show ?thesis
  proof (cases l)
    case (ATOM serial ty c)
    with assms(3) have "parse_atom ops serial ty c (s\<lparr>num_lines := num_lines s + 1\<rparr>) = Inr s'"
      by (simp add: parse_line_def)
    from parse_atom_branch_inv [OF b this] show ?thesis .
  next
    case (BRANCH x y)
    with assms(3) have "parse_branch x (s\<lparr>num_lines := num_lines s + 1\<rparr>) = Inr s'"
      by (simp add: parse_line_def)
    from parse_branch_branch_inv [OF a b this] show ?thesis .
  next
    case (ENDBRANCH x y)
    with assms(3) have "parse_endbranch y (s\<lparr>num_lines := num_lines s + 1\<rparr>) = Inr s'"
      by (simp add: parse_line_def)
    from parse_endbranch_branch_inv [OF a b this] show ?thesis .
  next
    case KEPT
    with assms(3) b show ?thesis by (simp add: parse_line_def)
  next
    case SKIPPED
    with assms(3) b show ?thesis by (simp add: parse_line_def)
  qed
qed

lemma parse_lines_branch_inv:
  "parser_inv s \<Longrightarrow> branch_inv s \<Longrightarrow> parse_lines ops ls s = Inr s' \<Longrightarrow> branch_inv s'"
proof (induction ls arbitrary: s)
  case Nil
  then show ?case by simp
next
  case (Cons l ls)
  from Cons.prems(3) obtain s1 where s1: "parse_line ops l s = Inr s1" "parse_lines ops ls s1 = Inr s'"
    by (auto split: sum.splits)
  from Cons.IH [OF parse_line_inv [OF Cons.prems(1) s1(1)]
      parse_line_branch_inv [OF Cons.prems(1,2) s1(1)] s1(2)] show ?case .
qed

lemma parse_branch_props:
  assumes "parse ops ls = Inr s"
  shows "p_frames s \<noteq> []"
    and "k < length (p_frames s) \<Longrightarrow> 0 < k \<Longrightarrow>
      parent (p_frames s ! k) < k
      \<and> (parent (p_frames s ! k) = 0 \<or> active (p_frames s ! parent (p_frames s ! k)))"
    and "k < length (p_frames s) \<Longrightarrow> 0 < k \<Longrightarrow> \<not> active (p_frames s ! k) \<Longrightarrow>
      rotorY (p_frames s ! k) = habegin (p_frames s ! k)
      \<and> haend (p_frames s ! k) = Suc (habegin (p_frames s ! k))"
proof -
  from assms obtain s0 where s0: "parse_lines ops ls parser_init = Inr s0" "parse_finish s0 = Inr s"
    unfolding parse_def by (auto split: sum.splits)
  from parse_lines_inv [OF parser_inv_init s0(1)] have pi: "parser_inv s0" .
  from parse_lines_branch_inv [OF parser_inv_init branch_inv_init s0(1)] have bi: "branch_inv s0" .
  note d = branch_invD [OF bi]
  let ?fs = "p_frames s0" and ?l = "length (p_frames s0) - 1"
  from pi have ne: "?fs \<noteq> []" and fi: "frames_inv ?fs (length (p_heavy_atoms s0))"
    unfolding parser_inv_def by simp_all
  from ne have l: "?l < length ?fs" by simp
  define g where "g = (?fs ! ?l)\<lparr>haend := length (p_heavy_atoms s0), hyend := length (p_hydrogens s0)\<rparr>"
  from s0(2) have s: "p_frames s = ?fs[?l := g]"
    unfolding parse_finish_def Let_def g_def by (auto split: if_splits)
  have same: "parent (?fs[?l := g] ! j) = parent (?fs ! j)" "active (?fs[?l := g] ! j) = active (?fs ! j)"
    "rotorY (?fs[?l := g] ! j) = rotorY (?fs ! j)" "habegin (?fs[?l := g] ! j) = habegin (?fs ! j)"
    if "j < length ?fs" for j
    using that by (cases "j = ?l"; simp add: g_def)+
  have he: "haend (?fs[?l := g] ! j) = (if Suc j < length ?fs then habegin (?fs ! Suc j) else length (p_heavy_atoms s0))"
    if "j < length ?fs" for j
  proof (cases "Suc j < length ?fs")
    case True
    with fi have "haend (?fs ! j) = habegin (?fs ! Suc j)"
      unfolding frames_inv_def by blast
    with True show ?thesis by simp
  next
    case False
    with that have "j = ?l" by simp
    with False l show ?thesis by (simp add: g_def)
  qed
  show "p_frames s \<noteq> []"
    unfolding s using ne by simp
  show "parent (p_frames s ! k) < k
      \<and> (parent (p_frames s ! k) = 0 \<or> active (p_frames s ! parent (p_frames s ! k)))"
    if k: "k < length (p_frames s)" "0 < k"
  proof -
    from k(1) have k': "k < length ?fs" unfolding s by simp
    from d(2) [OF k' k(2)] k' have pl: "parent (?fs ! k) < length ?fs" by simp
    from d(2) [OF k' k(2)] d(3) [OF k' k(2)] same(1) [OF k'] same(2) [OF pl]
    show ?thesis unfolding s by simp
  qed
  show "rotorY (p_frames s ! k) = habegin (p_frames s ! k)
      \<and> haend (p_frames s ! k) = Suc (habegin (p_frames s ! k))"
    if k: "k < length (p_frames s)" "0 < k" "\<not> active (p_frames s ! k)"
  proof -
    from k(1) have k': "k < length ?fs" unfolding s by simp
    from k(3) same(2) [OF k'] have ia: "\<not> active (?fs ! k)" unfolding s by simp
    from d(5) [OF k' k(2) ia] d(6) [OF k' k(2) ia] d(7) [OF k' k(2) ia] he [OF k'] same [OF k']
    show ?thesis unfolding s by (simp split: if_splits)
  qed
qed

lemma set_rotor_vectors_active:
  "active (set_rotor_vectors has fs ! j) = active (fs ! j)"
proof -
  let ?step = "\<lambda>k fs'. (let f = fs' ! k; p = fs' ! parent f
                    in fs'[k := f\<lparr>yy := vsub (coordinate (has ! rotorY f)) (coordinate (has ! rotorY p)),
                                   xy := normalize3 (vsub (coordinate (has ! rotorY f))
                                                          (coordinate (has ! rotorX f)))\<rparr>])"
  have step: "active (?step k gs ! j) = active (gs ! j)" for k and gs :: "frame list"
  proof (cases "k < length gs")
    case True
    then show ?thesis by (cases "j = k") (simp_all add: Let_def)
  next
    case False
    then show ?thesis by (simp add: Let_def list_update_beyond)
  qed
  have "active (fold ?step ks gs ! j) = active (gs ! j)" for ks and gs :: "frame list"
  proof (induction ks arbitrary: gs)
    case Nil
    show ?case by simp
  next
    case (Cons k ks)
    have "fold ?step (k # ks) gs = fold ?step ks (?step k gs)" by simp
    with Cons.IH [of "?step k gs"] step [of gs k] show ?case
      by simp
  qed
  then show ?thesis
    unfolding set_rotor_vectors_def .
qed

lemma vsub_self: "vsub a a = (0, 0, 0)"
  by (cases a) simp

lemma rel_inner:
  "length (fold (\<lambda>i h. h[i := (h ! i)\<lparr>coordinate := vsub (coordinate (h ! i)) orig\<rparr>]) js h) = length h"
  "j \<notin> set js \<Longrightarrow>
     fold (\<lambda>i h. h[i := (h ! i)\<lparr>coordinate := vsub (coordinate (h ! i)) orig\<rparr>]) js h ! j = h ! j"
  by (induction js arbitrary: h) simp_all

lemma relativize_rel_step: "relativize fs hh = fold (rel_step fs) [0..<length fs] hh"
proof -
  have "(\<lambda>k (has, hys).
             (let f = fs ! k;
                  orig = coordinate (has ! rotorY f)
              in (fold (\<lambda>i h. h[i := (h ! i)\<lparr>coordinate := vsub (coordinate (h ! i)) orig\<rparr>])
                       [habegin f..<haend f] has,
                  fold (\<lambda>i h. h[i := (h ! i)\<lparr>coordinate := vsub (coordinate (h ! i)) orig\<rparr>])
                       [hybegin f..<hyend f] hys))) = rel_step fs"
    by (intro ext) (simp add: rel_step_def case_prod_beta)
  then show ?thesis
    unfolding relativize_def by simp
qed

lemma rel_step_other:
  "length (fst (rel_step fs k hh)) = length (fst hh)"
  "\<not> (habegin (fs ! k) \<le> a \<and> a < haend (fs ! k)) \<Longrightarrow> fst (rel_step fs k hh) ! a = fst hh ! a"
  by (simp_all add: rel_step_def Let_def rel_inner)

lemma rel_step_single:
  assumes "haend (fs ! k) = Suc (habegin (fs ! k))" "rotorY (fs ! k) = habegin (fs ! k)"
    and "habegin (fs ! k) < length (fst hh)"
  shows "coordinate (fst (rel_step fs k hh) ! habegin (fs ! k)) = (0, 0, 0)"
  using assms by (simp add: rel_step_def Let_def vsub_self)

lemma rel_fold_other:
  "\<forall>k\<in>set ks. \<not> (habegin (fs ! k) \<le> a \<and> a < haend (fs ! k)) \<Longrightarrow>
   length (fst (fold (rel_step fs) ks hh)) = length (fst hh) \<and> fst (fold (rel_step fs) ks hh) ! a = fst hh ! a"
  by (induction ks arbitrary: hh) (simp_all add: rel_step_other)

lemma relativize_single:
  assumes ok: "frames_ok fs (length has)"
    and k: "k < length fs"
    and single: "haend (fs ! k) = Suc (habegin (fs ! k))" "rotorY (fs ! k) = habegin (fs ! k)"
  shows "coordinate (fst (relativize fs (has, hys)) ! habegin (fs ! k)) = (0, 0, 0)"
    and "length (fst (relativize fs (has, hys))) = length has"
proof -
  from ok have H: "\<forall>j<length fs. haend (fs ! j) \<le> length has"
    and ord: "\<forall>j. Suc j < length fs \<longrightarrow> haend (fs ! j) \<le> habegin (fs ! Suc j)"
    and ne: "\<forall>j<length fs. habegin (fs ! j) \<le> haend (fs ! j)"
    unfolding frames_ok_def by blast+
  let ?a = "habegin (fs ! k)"
  have split: "[0..<length fs] = [0..<k] @ k # [Suc k..<length fs]"
  proof -
    from k have "[0..<length fs] = [0..<k] @ [k..<length fs]"
      using upt_add_eq_append [of 0 k "length fs - k"] by simp
    also from k have "[k..<length fs] = k # [Suc k..<length fs]"
      by (rule upt_conv_Cons)
    finally show ?thesis .
  qed
  have before: "\<forall>j\<in>set [0..<k]. \<not> (habegin (fs ! j) \<le> ?a \<and> ?a < haend (fs ! j))"
  proof
    fix j assume "j \<in> set [0..<k]"
    then have "j < k" by simp
    from frames_ordered [OF ord ne this k] show "\<not> (habegin (fs ! j) \<le> ?a \<and> ?a < haend (fs ! j))"
      by simp
  qed
  have after: "\<forall>j\<in>set [Suc k..<length fs]. \<not> (habegin (fs ! j) \<le> ?a \<and> ?a < haend (fs ! j))"
  proof
    fix j assume "j \<in> set [Suc k..<length fs]"
    then have j: "k < j" "j < length fs" by simp_all
    from frames_ordered [OF ord ne j] single(1) show "\<not> (habegin (fs ! j) \<le> ?a \<and> ?a < haend (fs ! j))"
      by simp
  qed
  let ?h1 = "fold (rel_step fs) [0..<k] (has, hys)"
  let ?h2 = "rel_step fs k ?h1"
  from rel_fold_other [OF before, of "(has, hys)"] have l1: "length (fst ?h1) = length has" by simp
  from H k single(1) have "?a < length has" by (metis Suc_le_lessD)
  with l1 have "?a < length (fst ?h1)" by simp
  from rel_step_single [OF single this] have z: "coordinate (fst ?h2 ! ?a) = (0, 0, 0)" .
  have r: "relativize fs (has, hys) = fold (rel_step fs) [Suc k..<length fs] ?h2"
    unfolding relativize_rel_step by (subst split) simp
  from rel_fold_other [OF after, of ?h2] z show "coordinate (fst (relativize fs (has, hys)) ! ?a) = (0, 0, 0)"
    unfolding r by simp
  from rel_fold_other [OF after, of ?h2] l1 show "length (fst (relativize fs (has, hys))) = length has"
    unfolding r by (simp add: rel_step_other)
qed

lemma length_relativize: "length (fst (relativize fs hh)) = length (fst hh)"
proof -
  have "length (fst (fold (rel_step fs) ks hh)) = length (fst hh)" for ks
    by (induction ks arbitrary: hh) (simp_all add: rel_step_other)
  then show ?thesis unfolding relativize_rel_step .
qed

lemma ctor_props:
  assumes "ligand_ctor ops ls = Inr lig"
  shows "0 < num_frames lig"
    and "frames_ok (frames lig) (num_heavy_atoms lig)"
    and "\<forall>k\<in>{1..<num_frames lig}. parent (frames lig ! k) < k
        \<and> (parent (frames lig ! k) = 0 \<or> active (frames lig ! parent (frames lig ! k)))"
    and "\<forall>k\<in>{1..<num_frames lig}. \<not> active (frames lig ! k) \<longrightarrow>
        habegin (frames lig ! k) = rotorY (frames lig ! k)
        \<and> haend (frames lig ! k) = Suc (habegin (frames lig ! k))
        \<and> coordinate (heavy_atoms lig ! rotorY (frames lig ! k)) = (0, 0, 0)"
proof -
  from assms obtain s where p: "parse ops ls = Inr s"
    unfolding ligand_ctor_def by (auto split: sum.splits)
  let ?has = "ctor_atoms ops s"
  let ?fs = "set_rotor_vectors ?has (p_frames s)"
  from assms p have fr: "frames lig = ?fs"
    and ha: "heavy_atoms lig = fst (relativize ?fs (?has, p_hydrogens s))"
    unfolding ligand_ctor_def by (auto simp: Let_def)
  note ok = ctor_frames_ok [OF p]
  note pp = parse_branch_props [OF p]
  note sf = set_rotor_vectors_fields [of ?has "p_frames s"] set_rotor_vectors_active [of ?has "p_frames s"]
  have nh: "num_heavy_atoms lig = length ?has"
    unfolding num_heavy_atoms_def ha by (simp add: length_relativize)
  have nf: "num_frames lig = length (p_frames s)"
    unfolding num_frames_def fr by (simp add: sf)
  from pp(1) show "0 < num_frames lig"
    unfolding nf by simp
  from ok show "frames_ok (frames lig) (num_heavy_atoms lig)"
    unfolding fr nh .
  show "\<forall>k\<in>{1..<num_frames lig}. parent (frames lig ! k) < k
        \<and> (parent (frames lig ! k) = 0 \<or> active (frames lig ! parent (frames lig ! k)))"
  proof
    fix k assume "k \<in> {1..<num_frames lig}"
    then have k: "k < length (p_frames s)" "0 < k" unfolding nf by simp_all
    from pp(2) [OF k] show "parent (frames lig ! k) < k
        \<and> (parent (frames lig ! k) = 0 \<or> active (frames lig ! parent (frames lig ! k)))"
      unfolding fr by (simp add: sf)
  qed
  show "\<forall>k\<in>{1..<num_frames lig}. \<not> active (frames lig ! k) \<longrightarrow>
        habegin (frames lig ! k) = rotorY (frames lig ! k)
        \<and> haend (frames lig ! k) = Suc (habegin (frames lig ! k))
        \<and> coordinate (heavy_atoms lig ! rotorY (frames lig ! k)) = (0, 0, 0)"
  proof (intro ballI impI)
    fix k assume "k \<in> {1..<num_frames lig}" and ia: "\<not> active (frames lig ! k)"
    then have k: "k < length (p_frames s)" "0 < k" unfolding nf by simp_all
    from ia have "\<not> active (p_frames s ! k)" unfolding fr by (simp add: sf)
    from pp(3) [OF k this] have single: "haend (?fs ! k) = Suc (habegin (?fs ! k))"
      "rotorY (?fs ! k) = habegin (?fs ! k)"
      by (simp_all add: sf)
    from k(1) have kl: "k < length ?fs" by (simp add: sf)
    from relativize_single(1) [OF ok kl single, of "p_hydrogens s"] single
    show "habegin (frames lig ! k) = rotorY (frames lig ! k)
        \<and> haend (frames lig ! k) = Suc (habegin (frames lig ! k))
        \<and> coordinate (heavy_atoms lig ! rotorY (frames lig ! k)) = (0, 0, 0)"
      unfolding fr ha by simp
  qed
qed

lemma place_all_other:
  "\<not> (lo \<le> a \<and> a < hi) \<Longrightarrow> place_all as orig m lo hi cs ! a = cs ! a"
proof -
  have "a \<notin> set js \<Longrightarrow> fold (\<lambda>i cs. cs[i := vadd orig (mat_vec m (coordinate (as ! i)))]) js cs ! a = cs ! a" for js
    by (induction js arbitrary: cs) simp_all
  then show "\<not> (lo \<le> a \<and> a < hi) \<Longrightarrow> place_all as orig m lo hi cs ! a = cs ! a"
    unfolding place_all_def by simp
qed

lemma fk_step_coordinates_other:
  assumes "\<not> (habegin (frames lig ! j) \<le> a \<and> a < haend (frames lig ! j))"
    and "\<not> active (frames lig ! j) \<longrightarrow> rotorY (frames lig ! j) \<noteq> a"
  shows "coordinates (snd (fk_step lig conf j ts)) ! a = coordinates (snd ts) ! a"
  using assms by (simp add: fk_step_def Let_def place_all_other)

lemma fk_fold_coordinates_other:
  "\<forall>j\<in>set ks. \<not> (habegin (frames lig ! j) \<le> a \<and> a < haend (frames lig ! j))
      \<and> (\<not> active (frames lig ! j) \<longrightarrow> rotorY (frames lig ! j) \<noteq> a) \<Longrightarrow>
   coordinates (snd (fold (fk_step lig conf) ks ts)) ! a = coordinates (snd ts) ! a"
  by (induction ks arbitrary: ts) (simp_all add: fk_step_coordinates_other)

lemma fk_inactive_origin:
  assumes nf: "0 < num_frames lig"
    and ok: "frames_ok (frames lig) (num_heavy_atoms lig)"
    and inact: "\<forall>k\<in>{1..<num_frames lig}. \<not> active (frames lig ! k) \<longrightarrow>
        habegin (frames lig ! k) = rotorY (frames lig ! k)
        \<and> haend (frames lig ! k) = Suc (habegin (frames lig ! k))"
    and k: "k \<in> {1..<num_frames lig}" and ia: "\<not> active (frames lig ! k)"
  shows "coordinates (fk lig conf) ! rotorY (frames lig ! k) = origin (fk lig conf) ! k"
proof -
  let ?fs = "frames lig" and ?n = "num_frames lig"
  from ok have H: "\<forall>j<length ?fs. haend (?fs ! j) \<le> num_heavy_atoms lig"
    and ord: "\<forall>j. Suc j < length ?fs \<longrightarrow> haend (?fs ! j) \<le> habegin (?fs ! Suc j)"
    and ne: "\<forall>j<length ?fs. habegin (?fs ! j) \<le> haend (?fs ! j)"
    unfolding frames_ok_def by blast+
  from k have k': "1 \<le> k" "k < ?n" "k < length ?fs" by (simp_all add: num_frames_def)
  from inact k ia have single: "habegin (?fs ! k) = rotorY (?fs ! k)" "haend (?fs ! k) = Suc (habegin (?fs ! k))"
    by blast+
  let ?a = "rotorY (?fs ! k)"
  have split: "[1..<?n] = [1..<k] @ k # [Suc k..<?n]"
  proof -
    from k' have "[1..<?n] = [1..<k] @ [k..<?n]"
      using upt_add_eq_append [of 1 k "?n - k"] by simp
    also from k'(2) have "[k..<?n] = k # [Suc k..<?n]"
      by (rule upt_conv_Cons)
    finally show ?thesis .
  qed
  let ?t1 = "fold (fk_step lig conf) [1..<k] (0, fk_root lig conf)"
  let ?t2 = "fk_step lig conf k ?t1"
  have fk: "fk lig conf = snd (fold (fk_step lig conf) [Suc k..<?n] ?t2)"
    unfolding fk_def by (subst split) simp
  have lo: "k < length (origin (snd ?t1))"
    using k'(2) by (simp add: fk_fold_lengths fk_root_lengths)
  from H k'(3) single have "?a < num_heavy_atoms lig" by (metis Suc_le_lessD)
  then have lc: "?a < length (coordinates (snd ?t1))"
    by (simp add: fk_fold_lengths fk_root_lengths)
  have at: "coordinates (snd ?t2) ! ?a = origin (snd ?t2) ! k"
    using ia lo lc by (simp add: fk_step_def Let_def)
  have after: "\<forall>j\<in>set [Suc k..<?n]. \<not> (habegin (?fs ! j) \<le> ?a \<and> ?a < haend (?fs ! j))
      \<and> (\<not> active (?fs ! j) \<longrightarrow> rotorY (?fs ! j) \<noteq> ?a)"
  proof
    fix j assume "j \<in> set [Suc k..<?n]"
    then have j: "k < j" "j < length ?fs" "j \<in> {1..<?n}" by (simp_all add: num_frames_def)
    from frames_ordered [OF ord ne j(1,2)] single have lt: "?a < habegin (?fs ! j)" by simp
    from inact j(3) have "\<not> active (?fs ! j) \<longrightarrow> habegin (?fs ! j) = rotorY (?fs ! j)" by blast
    with lt show "\<not> (habegin (?fs ! j) \<le> ?a \<and> ?a < haend (?fs ! j))
      \<and> (\<not> active (?fs ! j) \<longrightarrow> rotorY (?fs ! j) \<noteq> ?a)"
      by auto
  qed
  have "k \<notin> set [Suc k..<?n]" by simp
  from fk_fold_coordinates_other [OF after, of conf ?t2] fk_fold_other(1) [OF this, of lig conf ?t2] at
  show ?thesis unfolding fk by simp
qed

lemma ex_parse3: "parse ex_ops ex_lines3 = Inr ex_parsed3"
  unfolding ex_lines3_def ex_parsed3_def ex_atom_def
  by (simp add: parse_def parse_finish_def parser_init_def parse_line_def parse_atom_def
      parse_branch_def parse_endbranch_def find_number_def mk_frame_def Let_def ex_ops_def)

lemma ex_ctor_atoms3: "ctor_atoms ex_ops ex_parsed3 = p_heavy_atoms ex_parsed3"
  unfolding ctor_atoms_def
  by (subst dehydrophobicize_all_no_hetero) (simp_all add: ex_ops_def)

lemma ex_rotor_vectors3: "set_rotor_vectors (p_heavy_atoms ex_parsed3) (p_frames ex_parsed3) = ex_frames3"
  by (simp add: set_rotor_vectors_def ex_parsed3_def ex_frames3_def ex_atom_def upt_1_3 Let_def norm3_def normalize3_def)

lemma ex_relativize3:
  "relativize ex_frames3 (p_heavy_atoms ex_parsed3, p_hydrogens ex_parsed3)
     = ([ex_atom (0, 0, 0), ex_atom (1, 0, 0), ex_atom (0, 0, 0), ex_atom (0, 1, 0), ex_atom (0, 0, 0)], [])"
  by (simp add: relativize_def ex_parsed3_def ex_frames3_def ex_atom_def upt_0_2 upt_2_4 upt_4_5 Let_def
      upt_rec [of 0 3])

lemma ex_neighbors3:
  "is_neighbor ex_ops (ex_atom (0, 0, 0)) (ex_atom (1, 0, 0))"
  "is_neighbor ex_ops (ex_atom (2, 0, 0)) (ex_atom (2, 1, 0))"
  by (simp_all add: ex_ops_def ex_atom_def)

lemma ex_bonds3:
  "build_bonds ex_ops ex_frames3 (p_heavy_atoms ex_parsed3) = [[1], [0, 2], [3, 1], [2, 4], [3]]"
  by (simp add: build_bonds_def frame_bonds_def add_bond_def ex_parsed3_def ex_frames3_def Let_def
      ex_neighbors3 upt_conv_Cons)

lemma ex_pairs3:
  "find_pairs ex_frames3 (p_heavy_atoms ex_parsed3) [[1], [0, 2], [3, 1], [2, 4], [3]]
     = [\<lparr>i1 = 0, i2 = 4, type_pair_index = 0\<rparr>]"
  by (simp add: find_pairs_def atom_pairs_def find_neighbors_def add_neighbor_def
      ex_parsed3_def ex_frames3_def ex_atom_def Let_def mp_def mr_def upt_conv_Cons)

lemma ex_ligand_ctor3: "ligand_ctor ex_ops ex_lines3 = Inr ex_lig3c"
  unfolding ligand_ctor_def ex_parse3 sum.case Let_def ex_ctor_atoms3 ex_rotor_vectors3 ex_bonds3
    ex_pairs3 ex_relativize3
  by (simp add: ex_lig3c_def ex_lig3_def ex_parsed3_def)

lemma fk_pairs: "fk (lig\<lparr>interacting_pairs := ps\<rparr>) conf = fk lig conf"
proof -
  have "fk_step (lig\<lparr>interacting_pairs := ps\<rparr>) conf = fk_step lig conf"
    by (intro ext) (simp add: fk_step_def Let_def)
  then show ?thesis
    by (simp add: fk_def fk_root_def eval_init_def num_frames_def num_heavy_atoms_def Let_def)
qed

lemma eval_kinematics_pairs:
  assumes "0 < num_frames lig"
  shows "eval_kinematics (lig\<lparr>interacting_pairs := ps\<rparr>) conf b = eval_kinematics lig conf b"
proof -
  have nf: "0 < num_frames (lig\<lparr>interacting_pairs := ps\<rparr>)"
    using assms by (simp add: num_frames_def)
  show ?thesis
    unfolding eval_kinematics_char [OF nf] eval_kinematics_char [OF assms] fk_pairs
    by (simp add: frame_within_def atom_world_def num_frames_def)
qed

lemma ex_kin3c:
  "eval_kinematics ex_lig3c (ex_conf3 (1, 1, 1)) ex_box = Some (fk ex_lig3c (ex_conf3 (1, 1, 1)))"
  unfolding ex_lig3c_def fk_pairs
  by (subst eval_kinematics_pairs) (simp_all add: ex_num_frames3 ex_kin3)

text \<open>
  Claim C9. For every ligand the constructor returns and every conformation, the heavy-atom
  coordinates of \<open>compose_result\<close> are, atom for atom, those of the forward-kinematics pass
  of \<open>evaluate\<close> (\<open>fk\<close> is that pass without its box tests, and is what \<open>evaluate\<close> holds
  whenever its pass runs to the end). For an inactive frame \<open>evaluate\<close> places only \<open>rotorY\<close>,
  at the origin of the frame, and \<open>compose_result\<close> turns the frame by the angle 0; the two
  agree because an inactive frame of the constructor holds the single heavy atom \<open>rotorY\<close>,
  whose local coordinate is zero.
\<close>

theorem compose_result_matches_evaluate:
  assumes "ligand_ctor ops ls = Inr lig"
  shows "coordinates (fk lig conf) = r_heavy_atoms (compose_result lig e f conf)
    \<and> (eval_kinematics lig conf b = Some s \<longrightarrow>
          coordinates s = r_heavy_atoms (compose_result lig e f conf)
        \<and> (\<forall>k\<in>{1..<num_frames lig}. \<not> active (frames lig ! k) \<longrightarrow>
              coordinates s ! rotorY (frames lig ! k) = origin s ! k))
    \<and> (\<forall>k\<in>{1..<num_frames lig}. \<not> active (frames lig ! k) \<longrightarrow>
          habegin (frames lig ! k) = rotorY (frames lig ! k)
        \<and> haend (frames lig ! k) = Suc (habegin (frames lig ! k))
        \<and> coordinate (heavy_atoms lig ! rotorY (frames lig ! k)) = (0, 0, 0))"
proof (intro conjI impI)
  note p = ctor_props [OF assms]
  from fk_coordinates_compose [OF p(1) p(3) p(4)]
  show c: "coordinates (fk lig conf) = r_heavy_atoms (compose_result lig e f conf)" .
  from p(4) show "\<forall>k\<in>{1..<num_frames lig}. \<not> active (frames lig ! k) \<longrightarrow>
          habegin (frames lig ! k) = rotorY (frames lig ! k)
        \<and> haend (frames lig ! k) = Suc (habegin (frames lig ! k))
        \<and> coordinate (heavy_atoms lig ! rotorY (frames lig ! k)) = (0, 0, 0)" .
  assume "eval_kinematics lig conf b = Some s"
  then have s: "s = fk lig conf"
    by (simp add: eval_kinematics_char [OF p(1)] split: if_splits)
  from c show "coordinates s = r_heavy_atoms (compose_result lig e f conf)"
    unfolding s .
  from p(4) have inact: "\<forall>k\<in>{1..<num_frames lig}. \<not> active (frames lig ! k) \<longrightarrow>
        habegin (frames lig ! k) = rotorY (frames lig ! k)
        \<and> haend (frames lig ! k) = Suc (habegin (frames lig ! k))"
    by blast
  show "\<forall>k\<in>{1..<num_frames lig}. \<not> active (frames lig ! k) \<longrightarrow>
              coordinates s ! rotorY (frames lig ! k) = origin s ! k"
    unfolding s using fk_inactive_origin [OF p(1) p(2) inact] by blast
qed

theorem compose_result_matches_evaluate_witness:
  "ligand_ctor ex_ops ex_lines3 = Inr ex_lig3c
   \<and> eval_kinematics ex_lig3c (ex_conf3 (1, 1, 1)) ex_box = Some (fk ex_lig3c (ex_conf3 (1, 1, 1)))
   \<and> r_heavy_atoms (compose_result ex_lig3c 0 0 (ex_conf3 (1, 1, 1)))
       = [(1, 1, 1), (2, 1, 1), (3, 1, 1), (3, 2, 1), (3, 3, 1)]
   \<and> \<not> active (frames ex_lig3c ! 2)
   \<and> coordinate (heavy_atoms ex_lig3c ! rotorY (frames ex_lig3c ! 2)) = (0, 0, 0)
   \<and> coordinates (fk ex_lig3c (ex_conf3 (1, 1, 1))) ! rotorY (frames ex_lig3c ! 2)
       = origin (fk ex_lig3c (ex_conf3 (1, 1, 1))) ! 2"
proof -
  note t = compose_result_matches_evaluate [OF ex_ligand_ctor3, where conf = "ex_conf3 (1, 1, 1)"
      and b = ex_box and s = "fk ex_lig3c (ex_conf3 (1, 1, 1))" and e = 0 and f = 0]
  have k: "(2::nat) \<in> {1..<num_frames ex_lig3c}"
    by (simp add: ex_lig3c_def num_frames_def ex_lig3_def ex_frames3_def)
  have ia: "\<not> active (frames ex_lig3c ! 2)"
    by (simp add: ex_lig3c_def ex_lig3_def ex_frames3_def)
  from t have "coordinates (fk ex_lig3c (ex_conf3 (1, 1, 1)))
      = r_heavy_atoms (compose_result ex_lig3c 0 0 (ex_conf3 (1, 1, 1)))"
    by blast
  then have c: "r_heavy_atoms (compose_result ex_lig3c 0 0 (ex_conf3 (1, 1, 1)))
       = [(1, 1, 1), (2, 1, 1), (3, 1, 1), (3, 2, 1), (3, 3, 1)]"
    unfolding ex_lig3c_def fk_pairs ex_fk3 by simp
  from t k ia have z: "coordinate (heavy_atoms ex_lig3c ! rotorY (frames ex_lig3c ! 2)) = (0, 0, 0)"
    by blast
  from t ex_kin3c k ia have o: "coordinates (fk ex_lig3c (ex_conf3 (1, 1, 1))) ! rotorY (frames ex_lig3c ! 2)
       = origin (fk ex_lig3c (ex_conf3 (1, 1, 1))) ! 2"
    by blast
  from ex_ligand_ctor3 ex_kin3c c ia z o show ?thesis by blast
qed

end
